theory Spec2Isabelle
  imports Main
begin

section \<open>Python strings\<close>

text \<open>
  A Python \<^verbatim>\<open>str\<close> is a sequence of Unicode code points. The segmenter inspects single
  characters (whitespace, line boundaries, ASCII letters and digits), so a string is
  modelled as the list of its code points. \<open>py\<close> embeds an Isabelle string literal.
\<close>

type_synonym pystr = "nat list"

definition py :: "string \<Rightarrow> pystr" where
  "py s = map of_char s"

text \<open>
  \<^verbatim>\<open>str.isspace\<close> for one character, which is also what \<^verbatim>\<open>str.strip()\<close> removes and what
  \<^verbatim>\<open>\s\<close> matches in a \<^verbatim>\<open>str\<close> pattern: the code points U+0009..U+000D, U+001C..U+0020,
  U+0085, U+00A0, U+1680, U+2000..U+200A, U+2028, U+2029, U+202F, U+205F, U+3000.
\<close>

definition isspace :: "nat \<Rightarrow> bool" where
  "isspace c \<longleftrightarrow>
     (9 \<le> c \<and> c \<le> 13) \<or> (28 \<le> c \<and> c \<le> 32) \<or> c = 133 \<or> c = 160 \<or> c = 5760 \<or>
     (8192 \<le> c \<and> c \<le> 8202) \<or> c = 8232 \<or> c = 8233 \<or> c = 8239 \<or> c = 8287 \<or> c = 12288"

text \<open>
  The line boundaries of \<^verbatim>\<open>str.splitlines\<close>: \<^verbatim>\<open>\n\<close>, \<^verbatim>\<open>\v\<close>, \<^verbatim>\<open>\f\<close>, \<^verbatim>\<open>\r\<close>, U+001C..U+001E,
  U+0085, U+2028 and U+2029 (and \<^verbatim>\<open>\r\n\<close>, which counts as one boundary).
\<close>

definition is_linebreak :: "nat \<Rightarrow> bool" where
  "is_linebreak c \<longleftrightarrow>
     (10 \<le> c \<and> c \<le> 13) \<or> (28 \<le> c \<and> c \<le> 30) \<or> c = 133 \<or> c = 8232 \<or> c = 8233"

text \<open>
  \<^verbatim>\<open>text.splitlines()\<close>: scan to the next line boundary, emit the characters before it,
  skip the boundary (both characters of \<^verbatim>\<open>\r\n\<close>); a last line without a boundary is emitted
  when it is not empty, so the empty string has no lines and a final boundary adds none.
  \<open>acc\<close> holds the characters of the line being scanned.
\<close>

fun splitlines_from :: "pystr \<Rightarrow> pystr \<Rightarrow> pystr list" where
  "splitlines_from acc [] = (if acc = [] then [] else [acc])"
| "splitlines_from acc (c # cs) =
     (if is_linebreak c then
        (case cs of
           [] \<Rightarrow> [acc]
         | d # ds \<Rightarrow>
             if c = 13 \<and> d = 10 then acc # splitlines_from [] ds
             else acc # splitlines_from [] (d # ds))
      else splitlines_from (acc @ [c]) cs)"

definition splitlines :: "pystr \<Rightarrow> pystr list" where
  "splitlines text = splitlines_from [] text"

text \<open>\<^verbatim>\<open>s.strip()\<close>: drop the leading and the trailing whitespace.\<close>

definition strip :: "pystr \<Rightarrow> pystr" where
  "strip s = rev (dropWhile isspace (rev (dropWhile isspace s)))"

text \<open>\<^verbatim>\<open>sep.join(xs)\<close>.\<close>

fun join :: "pystr \<Rightarrow> pystr list \<Rightarrow> pystr" where
  "join sep [] = []"
| "join sep [x] = x"
| "join sep (x # y # ys) = x @ sep @ join sep (y # ys)"

section \<open>The heading pattern\<close>

text \<open>
  The fragment of Python's regular expressions that the segmenter's pattern uses:
  a character class, \<^verbatim>\<open>+\<close> and \<^verbatim>\<open>*\<close> on a character class, sequence, alternation and
  the anchor \<^verbatim>\<open>$\<close>. A class is the predicate of its members.
\<close>

datatype regex =
    Class "nat \<Rightarrow> bool"
  | Plus "nat \<Rightarrow> bool"
  | Star "nat \<Rightarrow> bool"
  | Seq regex regex
  | Alt regex regex
  | Dollar

text \<open>
  \<open>star_rests p s\<close> lists what can remain of \<open>s\<close> after \<^verbatim>\<open>[p]*\<close> has consumed a prefix:
  any number of leading characters of the class, from none to the whole run (the
  backtracking matcher tries the longest first; only whether some choice lets the rest
  of the pattern match decides the result).
\<close>

fun star_rests :: "(nat \<Rightarrow> bool) \<Rightarrow> pystr \<Rightarrow> pystr list" where
  "star_rests p [] = [[]]"
| "star_rests p (c # cs) = (if p c then (c # cs) # star_rests p cs else [c # cs])"

text \<open>
  \<open>rests r s\<close>: every remainder of \<open>s\<close> after \<open>r\<close> has matched a prefix of it. Without
  \<^verbatim>\<open>re.MULTILINE\<close>, \<^verbatim>\<open>$\<close> matches at the end of the string and just before a newline that
  is the last character.
\<close>

fun rests :: "regex \<Rightarrow> pystr \<Rightarrow> pystr list" where
  "rests (Class p) s = (case s of [] \<Rightarrow> [] | c # cs \<Rightarrow> if p c then [cs] else [])"
| "rests (Plus p) s = (case s of [] \<Rightarrow> [] | c # cs \<Rightarrow> if p c then star_rests p cs else [])"
| "rests (Star p) s = star_rests p s"
| "rests (Seq r1 r2) s = concat (map (rests r2) (rests r1 s))"
| "rests (Alt r1 r2) s = rests r1 s @ rests r2 s"
| "rests Dollar s = (if s = [] \<or> s = [10] then [s] else [])"

text \<open>\<^verbatim>\<open>re.match(r, s)\<close> succeeds when \<open>r\<close> matches some prefix of \<open>s\<close>.\<close>

definition re_match :: "regex \<Rightarrow> pystr \<Rightarrow> bool" where
  "re_match r s \<longleftrightarrow> rests r s \<noteq> []"

definition upper_AZ :: "nat \<Rightarrow> bool" where
  "upper_AZ c \<longleftrightarrow> 65 \<le> c \<and> c \<le> 90"

definition lower_az :: "nat \<Rightarrow> bool" where
  "lower_az c \<longleftrightarrow> 97 \<le> c \<and> c \<le> 122"

definition digit_09 :: "nat \<Rightarrow> bool" where
  "digit_09 c \<longleftrightarrow> 48 \<le> c \<and> c \<le> 57"

text \<open>
  \<^verbatim>\<open>r'^([A-Z][A-Za-z\s]+|[0-9]+\.\s.*)$'\<close>. The leading \<^verbatim>\<open>^\<close> adds nothing under
  \<^verbatim>\<open>re.match\<close>, which only tries position 0; \<^verbatim>\<open>.\<close> is any character but \<^verbatim>\<open>\n\<close>.
\<close>

definition heading_pattern :: regex where
  "heading_pattern =
     Seq (Alt (Seq (Class upper_AZ) (Plus (\<lambda>c. upper_AZ c \<or> lower_az c \<or> isspace c)))
              (Seq (Plus digit_09)
                (Seq (Class (\<lambda>c. c = 46)) (Seq (Class isspace) (Star (\<lambda>c. c \<noteq> 10))))))
         Dollar"

section \<open>The segmenter\<close>

text \<open>
  One iteration of the loop of \<^verbatim>\<open>break_into_blocks\<close> on the state
  \<open>(blocks, current_block)\<close>.
\<close>

definition block_step :: "pystr list \<times> pystr list \<Rightarrow> pystr \<Rightarrow> pystr list \<times> pystr list" where
  "block_step st line =
     (let (blocks, current_block) = st;
          stripped = strip line
      in if stripped = [] then (blocks, current_block)
         else if re_match heading_pattern stripped then
           (if current_block \<noteq> []
            then (blocks @ [strip (join [32] current_block)], [stripped])
            else (blocks, [stripped]))
         else (blocks, current_block @ [stripped]))"

definition break_into_blocks :: "pystr \<Rightarrow> pystr list" where
  "break_into_blocks text =
     (let (blocks, current_block) = foldl block_step ([], []) (splitlines text)
      in if current_block \<noteq> [] then blocks @ [strip (join [32] current_block)] else blocks)"

section \<open>JSON values and the Python operations on them\<close>

text \<open>
  A value as \<^verbatim>\<open>json.loads\<close> returns it. \<open>JObj\<close> holds the items of a \<^verbatim>\<open>dict\<close> in insertion
  order (a key occurs once in a dict; a lookup takes its first binding). The program never
  looks at the value of a number, so an integer stands for any JSON number.
\<close>

datatype json =
    JNull
  | JBool bool
  | JNum int
  | JStr pystr
  | JArr "json list"
  | JObj "(pystr \<times> json) list"

text \<open>The exceptions that the modelled code raises.\<close>

datatype py_error = KeyError | TypeError | AttributeError | JSONDecodeError

text \<open>
  \<^verbatim>\<open>obj[key]\<close> with a \<^verbatim>\<open>str\<close> key: a dict answers (\<^verbatim>\<open>KeyError\<close> when the key is missing),
  every other JSON value raises \<^verbatim>\<open>TypeError\<close>.
\<close>

fun getitem :: "json \<Rightarrow> pystr \<Rightarrow> py_error + json" where
  "getitem (JObj kvs) k = (case map_of kvs k of None \<Rightarrow> Inl KeyError | Some v \<Rightarrow> Inr v)"
| "getitem _ k = Inl TypeError"

text \<open>
  \<^verbatim>\<open>d[k] = v\<close> on a dict kept in insertion order: a key already present keeps its place,
  a new key goes to the end.
\<close>

fun dict_set :: "('k \<times> 'v) list \<Rightarrow> 'k \<Rightarrow> 'v \<Rightarrow> ('k \<times> 'v) list" where
  "dict_set [] k v = [(k, v)]"
| "dict_set (p # ps) k v = (if fst p = k then (k, v) # ps else p # dict_set ps k v)"

text \<open>\<^verbatim>\<open>obj[key] = v\<close> with a \<^verbatim>\<open>str\<close> key: only a dict accepts it.\<close>

fun setitem :: "json \<Rightarrow> pystr \<Rightarrow> json \<Rightarrow> py_error + json" where
  "setitem (JObj kvs) k v = Inr (JObj (dict_set kvs k v))"
| "setitem _ k v = Inl TypeError"

text \<open>\<^verbatim>\<open>obj.get(key, default)\<close>.\<close>

fun dict_get :: "json \<Rightarrow> pystr \<Rightarrow> json \<Rightarrow> py_error + json" where
  "dict_get (JObj kvs) k d = Inr (case map_of kvs k of None \<Rightarrow> d | Some v \<Rightarrow> v)"
| "dict_get _ k d = Inl AttributeError"

text \<open>
  The values a \<^verbatim>\<open>for\<close> loop over a JSON value visits: the elements of a list, the keys of
  a dict, the characters of a string; \<^verbatim>\<open>None\<close>, booleans and numbers are not iterable.
\<close>

fun iterate :: "json \<Rightarrow> py_error + json list" where
  "iterate (JArr xs) = Inr xs"
| "iterate (JObj kvs) = Inr (map (\<lambda>p. JStr (fst p)) kvs)"
| "iterate (JStr s) = Inr (map (\<lambda>c. JStr [c]) s)"
| "iterate _ = Inl TypeError"

section \<open>The aggregator\<close>

text \<open>An entry \<^verbatim>\<open>{"id": ..., "text": ...}\<close> of the checklist; \<open>ident\<close> is the key \<^verbatim>\<open>"id"\<close>.\<close>

record checklist_item =
  ident :: pystr
  item_text :: pystr

text \<open>
  The dict appended to \<^verbatim>\<open>"Matched Blocks"\<close>, with the keys \<^verbatim>\<open>"Block ID"\<close>, \<^verbatim>\<open>"Status"\<close> and
  \<^verbatim>\<open>"Justification"\<close>; the values are taken from the reply as they are.
\<close>

record matched_block =
  block_id :: json
  status :: json
  justification :: json

text \<open>
  The dict kept per checklist item, with the keys \<^verbatim>\<open>"Checklist Item ID"\<close>,
  \<^verbatim>\<open>"Final Status"\<close> and \<^verbatim>\<open>"Matched Blocks"\<close>.
\<close>

record summary_info =
  checklist_item_id :: pystr
  final_status :: pystr
  matched_blocks :: "matched_block list"

text \<open>The dict \<^verbatim>\<open>summary\<close>, keyed by item id, in insertion order.\<close>

type_synonym summary = "(pystr \<times> summary_info) list"

text \<open>The first loop of \<^verbatim>\<open>compile_summary\<close>: one entry per checklist item.\<close>

definition init_summary :: "checklist_item list \<Rightarrow> summary" where
  "init_summary checklist =
     foldl (\<lambda>summary item. dict_set summary (ident item)
              \<lparr>checklist_item_id = ident item, final_status = py ''Missing'',
               matched_blocks = []\<rparr>)
       [] checklist"

text \<open>
  \<^verbatim>\<open>summary[item_id]["Matched Blocks"].append(m)\<close>. A list or a dict as key is unhashable
  (\<^verbatim>\<open>TypeError\<close>); any other key that \<^verbatim>\<open>summary\<close> does not hold raises \<^verbatim>\<open>KeyError\<close>, and
  since the keys of \<^verbatim>\<open>summary\<close> are strings, a number, a boolean or \<^verbatim>\<open>None\<close> is never found.
\<close>

definition append_match :: "summary \<Rightarrow> json \<Rightarrow> matched_block \<Rightarrow> py_error + summary" where
  "append_match summary item_id m =
     (case item_id of
        JStr k \<Rightarrow>
          (case map_of summary k of
             None \<Rightarrow> Inl KeyError
           | Some info \<Rightarrow>
               Inr (dict_set summary k (info\<lparr>matched_blocks := matched_blocks info @ [m]\<rparr>)))
      | JArr xs \<Rightarrow> Inl TypeError
      | JObj kvs \<Rightarrow> Inl TypeError
      | _ \<Rightarrow> Inl KeyError)"

text \<open>The body of the inner loop, for one item of a block's evaluation.\<close>

definition merge_item :: "json \<Rightarrow> summary \<Rightarrow> json \<Rightarrow> py_error + summary" where
  "merge_item bid summary item =
     (case getitem item (py ''Checklist Item ID'') of
        Inl e \<Rightarrow> Inl e
      | Inr iid \<Rightarrow>
          (case getitem item (py ''Status'') of
             Inl e \<Rightarrow> Inl e
           | Inr st \<Rightarrow>
               if st \<noteq> JStr (py ''Missing'') then
                 (case dict_get item (py ''Justification'') (JStr []) of
                    Inl e \<Rightarrow> Inl e
                  | Inr j \<Rightarrow>
                      append_match summary iid
                        \<lparr>block_id = bid, status = st, justification = j\<rparr>)
               else Inr summary))"

text \<open>The inner loop; an exception ends it.\<close>

fun merge_items :: "json \<Rightarrow> summary \<Rightarrow> json list \<Rightarrow> py_error + summary" where
  "merge_items bid summary [] = Inr summary"
| "merge_items bid summary (item # items) =
     (case merge_item bid summary item of
        Inl e \<Rightarrow> Inl e
      | Inr summary' \<Rightarrow> merge_items bid summary' items)"

text \<open>The body of the outer loop, for one block result.\<close>

definition merge_block :: "summary \<Rightarrow> json \<Rightarrow> py_error + summary" where
  "merge_block summary block =
     (case getitem block (py ''block_id'') of
        Inl e \<Rightarrow> Inl e
      | Inr bid \<Rightarrow>
          (case getitem block (py ''Checklist Evaluation'') of
             Inl e \<Rightarrow> Inl e
           | Inr ev \<Rightarrow>
               (case iterate ev of
                  Inl e \<Rightarrow> Inl e
                | Inr items \<Rightarrow> merge_items bid summary items)))"

text \<open>The outer loop over \<^verbatim>\<open>all_block_results\<close>.\<close>

fun merge_blocks :: "summary \<Rightarrow> json list \<Rightarrow> py_error + summary" where
  "merge_blocks summary [] = Inr summary"
| "merge_blocks summary (block # blocks) =
     (case merge_block summary block of
        Inl e \<Rightarrow> Inl e
      | Inr summary' \<Rightarrow> merge_blocks summary' blocks)"

text \<open>The body of the last loop: the final status of one item.\<close>

definition set_final_status :: "summary_info \<Rightarrow> summary_info" where
  "set_final_status info =
     (let statuses = map status (matched_blocks info)
      in if JStr (py ''Explicitly Mentioned'') \<in> set statuses
         then info\<lparr>final_status := py ''Explicitly Mentioned''\<rparr>
         else if JStr (py ''Partially Mentioned'') \<in> set statuses
         then info\<lparr>final_status := py ''Partially Mentioned''\<rparr>
         else info)"

text \<open>
  \<^verbatim>\<open>compile_summary(checklist, all_block_results)\<close>: the summaries in the order of the
  dict, or the exception that a loop raised.
\<close>

definition compile_summary :: "checklist_item list \<Rightarrow> json list \<Rightarrow> py_error + summary_info list" where
  "compile_summary checklist all_block_results =
     (case merge_blocks (init_summary checklist) all_block_results of
        Inl e \<Rightarrow> Inl e
      | Inr summary \<Rightarrow> Inr (map (\<lambda>p. set_final_status (snd p)) summary))"

text \<open>The checklist of the application.\<close>

definition section_4_checklist :: "checklist_item list" where
  "section_4_checklist =
     [\<lparr>ident = py ''4.1'', item_text = py ''The policy must state that personal data is processed only as per the provisions of the Digital Personal Data Protection Act, 2023.''\<rparr>,
      \<lparr>ident = py ''4.2'', item_text = py ''The policy must confirm that personal data is processed only for a lawful purpose.''\<rparr>,
      \<lparr>ident = py ''4.3'', item_text = py ''The policy must define lawful purpose as any purpose not expressly forbidden by law.''\<rparr>,
      \<lparr>ident = py ''4.4'', item_text = py ''The policy must include a statement that personal data is processed only with the consent of the Data Principal.''\<rparr>]"

section \<open>The block loop of the application\<close>

text \<open>The decimal digits of \<^verbatim>\<open>i\<close>, as \<^verbatim>\<open>f"BLOCK{i}"\<close> formats it.\<close>

fun decimal :: "nat \<Rightarrow> pystr" where
  "decimal n = (if n < 10 then [48 + n] else decimal (n div 10) @ [48 + n mod 10])"

declare decimal.simps [simp del]

declare decimal.simps [simp del]

definition block_label :: "nat \<Rightarrow> pystr" where
  "block_label i = py ''BLOCK'' @ decimal i"

text \<open>
  The body of the expander inside the \<^verbatim>\<open>try\<close>: it reads \<^verbatim>\<open>"Checklist Item ID"\<close> and
  \<^verbatim>\<open>"Status"\<close> of every item of \<^verbatim>\<open>parsed["Checklist Evaluation"]\<close>. Only the exception it
  may raise matters here (\<open>None\<close>: it raised nothing).
\<close>

fun show_items :: "json list \<Rightarrow> py_error option" where
  "show_items [] = None"
| "show_items (item # items) =
     (case getitem item (py ''Checklist Item ID'') of
        Inl e \<Rightarrow> Some e
      | Inr iid \<Rightarrow>
          (case getitem item (py ''Status'') of
             Inl e \<Rightarrow> Some e
           | Inr st \<Rightarrow> show_items items))"

definition show_block :: "json \<Rightarrow> py_error option" where
  "show_block parsed =
     (case getitem parsed (py ''Checklist Evaluation'') of
        Inl e \<Rightarrow> Some e
      | Inr ev \<Rightarrow> (case iterate ev of Inl e \<Rightarrow> Some e | Inr items \<Rightarrow> show_items items))"

text \<open>
  The \<^verbatim>\<open>try\<close> statement for block \<open>i\<close>. \<open>loaded\<close> is the result of
  \<^verbatim>\<open>json.loads(gpt_response)\<close>, \<open>None\<close> when it raises. The state is \<^verbatim>\<open>all_block_results\<close>
  together with the errors that \<^verbatim>\<open>except\<close> reported. \<^verbatim>\<open>parsed\<close> is appended before the
  expander reads it.
\<close>

definition run_block ::
  "nat \<Rightarrow> json option \<Rightarrow> json list \<times> (nat \<times> py_error) list \<Rightarrow> json list \<times> (nat \<times> py_error) list"
where
  "run_block i loaded st =
     (let (all_block_results, errors) = st
      in case loaded of
           None \<Rightarrow> (all_block_results, errors @ [(i, JSONDecodeError)])
         | Some parsed \<Rightarrow>
             (case setitem parsed (py ''block_id'') (JStr (block_label i)) of
                Inl e \<Rightarrow> (all_block_results, errors @ [(i, e)])
              | Inr parsed' \<Rightarrow>
                  (case show_block parsed' of
                     None \<Rightarrow> (all_block_results @ [parsed'], errors)
                   | Some e \<Rightarrow> (all_block_results @ [parsed'], errors @ [(i, e)]))))"

text \<open>The loop \<^verbatim>\<open>for i, block in enumerate(blocks, start=1)\<close>.\<close>

fun run_blocks ::
  "nat \<Rightarrow> json option list \<Rightarrow> json list \<times> (nat \<times> py_error) list \<Rightarrow> json list \<times> (nat \<times> py_error) list"
where
  "run_blocks i [] st = st"
| "run_blocks i (loaded # rest) st = run_blocks (Suc i) rest (run_block i loaded st)"

text \<open>
  The loop over the blocks, then \<^verbatim>\<open>compile_summary\<close>, which is called outside any
  \<^verbatim>\<open>try\<close>: the result is the list of reported errors and either the final summary or the
  exception that ends the run.
\<close>

definition run_compliance_check ::
  "checklist_item list \<Rightarrow> json option list \<Rightarrow> (nat \<times> py_error) list \<times> (py_error + summary_info list)"
where
  "run_compliance_check checklist responses =
     (let (all_block_results, errors) = run_blocks 1 responses ([], [])
      in (errors, compile_summary checklist all_block_results))"

section \<open>Notions used in the statements\<close>

text \<open>A string that \<open>strip\<close> leaves as it is: not empty, no whitespace at either end.\<close>

definition clean :: "pystr \<Rightarrow> bool" where
  "clean s \<longleftrightarrow> s \<noteq> [] \<and> \<not> isspace (hd s) \<and> \<not> isspace (last s)"

text \<open>The stripped lines that are not empty, in order.\<close>

definition nonblank :: "pystr list \<Rightarrow> pystr list" where
  "nonblank ls = filter (\<lambda>s. s \<noteq> []) (map strip ls)"

text \<open>What the segmenter returns from a loop state.\<close>

definition close_block :: "pystr list \<times> pystr list \<Rightarrow> pystr list" where
  "close_block st = (if snd st \<noteq> [] then fst st @ [strip (join [32] (snd st))] else fst st)"

text \<open>
  The heading rule in the words of the specification, for comparison with the pattern of
  the source: (a) a line that consists only of capitalized words and spaces, no word of
  it being all lowercase; (b) a line that begins with a numeric marker followed by a
  period and a space. \<open>split_spaces\<close> gives the words of a line.
\<close>

fun split_spaces :: "pystr \<Rightarrow> pystr \<Rightarrow> pystr list" where
  "split_spaces acc [] = (if acc = [] then [] else [acc])"
| "split_spaces acc (c # cs) =
     (if c = 32 then (if acc = [] then [] else [acc]) @ split_spaces [] cs
      else split_spaces (acc @ [c]) cs)"

definition capitalized_word :: "pystr \<Rightarrow> bool" where
  "capitalized_word w \<longleftrightarrow>
     w \<noteq> [] \<and> upper_AZ (hd w) \<and> list_all (\<lambda>c. upper_AZ c \<or> lower_az c) w"

definition spec_capitalized_line :: "pystr \<Rightarrow> bool" where
  "spec_capitalized_line s \<longleftrightarrow>
     split_spaces [] s \<noteq> [] \<and> list_all capitalized_word (split_spaces [] s)"

definition spec_numbered_line :: "pystr \<Rightarrow> bool" where
  "spec_numbered_line s \<longleftrightarrow>
     takeWhile digit_09 s \<noteq> [] \<and> take 2 (dropWhile digit_09 s) = [46, 32]"

definition spec_heading :: "pystr \<Rightarrow> bool" where
  "spec_heading s \<longleftrightarrow> spec_capitalized_line s \<or> spec_numbered_line s"

text \<open>The pairs (block id, item) that the loops of \<^verbatim>\<open>compile_summary\<close> visit, in order.\<close>

definition block_entries :: "json \<Rightarrow> (json \<times> json) list" where
  "block_entries block =
     (case getitem block (py ''block_id'') of
        Inl e \<Rightarrow> []
      | Inr bid \<Rightarrow>
          (case getitem block (py ''Checklist Evaluation'') of
             Inl e \<Rightarrow> []
           | Inr ev \<Rightarrow> (case iterate ev of Inl e \<Rightarrow> [] | Inr items \<Rightarrow> map (Pair bid) items)))"

definition entries :: "json list \<Rightarrow> (json \<times> json) list" where
  "entries all_block_results = concat (map block_entries all_block_results)"

text \<open>
  The record that an entry adds to the matched blocks of item \<open>k\<close>: one record when the
  entry names \<open>k\<close> with a status other than \<^verbatim>\<open>"Missing"\<close>, none otherwise.
\<close>

definition entry_record :: "pystr \<Rightarrow> json \<times> json \<Rightarrow> matched_block list" where
  "entry_record k e =
     (case getitem (snd e) (py ''Checklist Item ID'') of
        Inl x \<Rightarrow> []
      | Inr iid \<Rightarrow>
          (case getitem (snd e) (py ''Status'') of
             Inl x \<Rightarrow> []
           | Inr st \<Rightarrow>
               (case dict_get (snd e) (py ''Justification'') (JStr []) of
                  Inl x \<Rightarrow> []
                | Inr j \<Rightarrow>
                    if iid = JStr k \<and> st \<noteq> JStr (py ''Missing'')
                    then [\<lparr>block_id = fst e, status = st, justification = j\<rparr>]
                    else [])))"

definition recorded :: "json list \<Rightarrow> pystr \<Rightarrow> matched_block list" where
  "recorded all_block_results k = concat (map (entry_record k) (entries all_block_results))"

text \<open>Every status that the block results report for item \<open>k\<close>, \<^verbatim>\<open>"Missing"\<close> included.\<close>

definition entry_statuses :: "pystr \<Rightarrow> json \<times> json \<Rightarrow> json list" where
  "entry_statuses k e =
     (case getitem (snd e) (py ''Checklist Item ID'') of
        Inl x \<Rightarrow> []
      | Inr iid \<Rightarrow>
          (case getitem (snd e) (py ''Status'') of
             Inl x \<Rightarrow> []
           | Inr st \<Rightarrow> if iid = JStr k then [st] else []))"

definition reported_statuses :: "json list \<Rightarrow> pystr \<Rightarrow> json list" where
  "reported_statuses all_block_results k =
     concat (map (entry_statuses k) (entries all_block_results))"

text \<open>
  A block result of the expected structure: a dict with \<^verbatim>\<open>"block_id"\<close> and an iterable
  \<^verbatim>\<open>"Checklist Evaluation"\<close>, whose items are dicts with \<^verbatim>\<open>"Checklist Item ID"\<close> and
  \<^verbatim>\<open>"Status"\<close>, the id being one of the checklist unless the status is \<^verbatim>\<open>"Missing"\<close>.
\<close>

definition valid_item :: "pystr list \<Rightarrow> json \<Rightarrow> bool" where
  "valid_item ids item =
     (case getitem item (py ''Checklist Item ID'') of
        Inl e \<Rightarrow> False
      | Inr iid \<Rightarrow>
          (case getitem item (py ''Status'') of
             Inl e \<Rightarrow> False
           | Inr st \<Rightarrow> st = JStr (py ''Missing'') \<or> iid \<in> JStr ` set ids))"

definition valid_block :: "pystr list \<Rightarrow> json \<Rightarrow> bool" where
  "valid_block ids block =
     (case getitem block (py ''block_id'') of
        Inl e \<Rightarrow> False
      | Inr bid \<Rightarrow>
          (case getitem block (py ''Checklist Evaluation'') of
             Inl e \<Rightarrow> False
           | Inr ev \<Rightarrow>
               (case iterate ev of Inl e \<Rightarrow> False | Inr items \<Rightarrow> list_all (valid_item ids) items)))"

text \<open>\<open>add_records f\<close> appends the records \<open>f k\<close> to the matched blocks of every key \<open>k\<close>.\<close>

definition add_records :: "(pystr \<Rightarrow> matched_block list) \<Rightarrow> summary \<Rightarrow> summary" where
  "add_records f S = map (\<lambda>p. (fst p, (snd p)\<lparr>matched_blocks := matched_blocks (snd p) @ f (fst p)\<rparr>)) S"

text \<open>The summary of item \<open>k\<close> in terms of the block results.\<close>

definition summary_of :: "json list \<Rightarrow> pystr \<Rightarrow> summary_info" where
  "summary_of rs k =
     set_final_status
       \<lparr>checklist_item_id = k, final_status = py ''Missing'', matched_blocks = recorded rs k\<rparr>"

text \<open>Block results and replies used as concrete instances below.\<close>

definition example_results :: "json list" where
  "example_results =
     [JObj [(py ''Checklist Evaluation'',
             JArr [JObj [(py ''Checklist Item ID'', JStr (py ''4.1'')),
                         (py ''Status'', JStr (py ''Partially Mentioned'')),
                         (py ''Justification'', JStr (py ''mentions the Act''))],
                   JObj [(py ''Checklist Item ID'', JStr (py ''4.2'')),
                         (py ''Status'', JStr (py ''Missing''))]]),
            (py ''block_id'', JStr (py ''BLOCK1''))],
      JObj [(py ''Checklist Evaluation'',
             JArr [JObj [(py ''Checklist Item ID'', JStr (py ''4.1'')),
                         (py ''Status'', JStr (py ''Explicitly Mentioned''))],
                   JObj [(py ''Checklist Item ID'', JStr (py ''4.4'')),
                         (py ''Status'', JStr (py ''Partially Mentioned'')),
                         (py ''Justification'', JStr (py ''asks for consent''))]]),
            (py ''block_id'', JStr (py ''BLOCK2''))]]"

definition stray_block :: "pystr \<Rightarrow> json" where
  "stray_block st =
     JObj [(py ''Checklist Evaluation'',
            JArr [JObj [(py ''Checklist Item ID'', JStr (py ''9.9'')), (py ''Status'', JStr st)]]),
           (py ''block_id'', JStr (py ''BLOCK1''))]"

definition empty_block :: json where
  "empty_block =
     JObj [(py ''Checklist Evaluation'', JArr []), (py ''block_id'', JStr (py ''BLOCK1''))]"

definition good_reply :: json where
  "good_reply =
     JObj [(py ''Checklist Evaluation'',
            JArr [JObj [(py ''Checklist Item ID'', JStr (py ''4.1'')),
                        (py ''Status'', JStr (py ''Explicitly Mentioned'')),
                        (py ''Justification'', JStr (py ''states X''))]])]"

section \<open>Properties of the heading pattern\<close>

lemma in_star_rests:
  "r \<in> set (star_rests p s) \<longleftrightarrow> (\<exists>pre. s = pre @ r \<and> (\<forall>x\<in>set pre. p x))"
proof (induction s)
  case Nil
  then show ?case by auto
next
  case (Cons c cs)
  show ?case
  proof (cases "p c")
    case True
    then show ?thesis
      using Cons.IH by (auto simp: Cons_eq_append_conv)
  next
    case False
    then show ?thesis
      by (auto simp: Cons_eq_append_conv)
  qed
qed

lemma in_rests_Class: "r \<in> set (rests (Class p) s) \<longleftrightarrow> (\<exists>c. s = c # r \<and> p c)"
  by (cases s) auto

lemma in_rests_Plus:
  "r \<in> set (rests (Plus p) s) \<longleftrightarrow> (\<exists>pre. pre \<noteq> [] \<and> s = pre @ r \<and> (\<forall>x\<in>set pre. p x))"
proof (cases s)
  case Nil
  then show ?thesis by auto
next
  case (Cons c cs)
  show ?thesis
  proof
    assume "r \<in> set (rests (Plus p) s)"
    then have pc: "p c" and "r \<in> set (star_rests p cs)"
      using Cons by (auto split: if_splits)
    then obtain pre where "cs = pre @ r" "\<forall>x\<in>set pre. p x"
      by (auto simp: in_star_rests)
    then have "c # pre \<noteq> [] \<and> s = (c # pre) @ r \<and> (\<forall>x\<in>set (c # pre). p x)"
      using Cons pc by simp
    then show "\<exists>pre. pre \<noteq> [] \<and> s = pre @ r \<and> (\<forall>x\<in>set pre. p x)"
      by blast
  next
    assume "\<exists>pre. pre \<noteq> [] \<and> s = pre @ r \<and> (\<forall>x\<in>set pre. p x)"
    then obtain pre where pre: "pre \<noteq> []" "s = pre @ r" "\<forall>x\<in>set pre. p x"
      by blast
    then obtain pre' where "pre = c # pre'"
      using Cons by (cases pre) auto
    then show "r \<in> set (rests (Plus p) s)"
      using pre Cons by (auto simp: in_star_rests)
  qed
qed

lemma in_rests_Seq:
  "r \<in> set (rests (Seq a b) s) \<longleftrightarrow> (\<exists>m. m \<in> set (rests a s) \<and> r \<in> set (rests b m))"
  by auto

lemma in_rests_Alt:
  "r \<in> set (rests (Alt a b) s) \<longleftrightarrow> r \<in> set (rests a s) \<or> r \<in> set (rests b s)"
  by auto

lemma in_rests_Dollar: "r \<in> set (rests Dollar s) \<longleftrightarrow> r = s \<and> (s = [] \<or> s = [10])"
  by auto

lemma re_match_iff: "re_match r s \<longleftrightarrow> (\<exists>x. x \<in> set (rests r s))"
  by (cases "rests r s") (auto simp: re_match_def)

lemma in_rests_capitalised:
  "m \<in> set (rests (Seq (Class U) (Plus L)) s) \<longleftrightarrow>
     (\<exists>c pre. s = c # pre @ m \<and> U c \<and> pre \<noteq> [] \<and> (\<forall>x\<in>set pre. L x))"
  unfolding in_rests_Seq in_rests_Class in_rests_Plus by auto

lemma in_rests_numbered:
  "m \<in> set (rests (Seq (Plus D) (Seq (Class (\<lambda>c. c = 46)) (Seq (Class W) (Star N)))) s) \<longleftrightarrow>
     (\<exists>ds w mid. s = ds @ 46 # w # mid @ m \<and> ds \<noteq> [] \<and> (\<forall>x\<in>set ds. D x) \<and> W w \<and>
        (\<forall>x\<in>set mid. N x))"
  unfolding in_rests_Seq in_rests_Class in_rests_Plus rests.simps(3) in_star_rests
  by (auto simp: append_eq_Cons_conv)

lemma heading_rests:
  "re_match heading_pattern s \<longleftrightarrow>
     (\<exists>c pre r. s = c # pre @ r \<and> upper_AZ c \<and> pre \<noteq> [] \<and>
        (\<forall>x\<in>set pre. upper_AZ x \<or> lower_az x \<or> isspace x) \<and> (r = [] \<or> r = [10])) \<or>
     (\<exists>ds w mid r. s = ds @ 46 # w # mid @ r \<and> ds \<noteq> [] \<and> (\<forall>x\<in>set ds. digit_09 x) \<and>
        isspace w \<and> (\<forall>x\<in>set mid. x \<noteq> 10) \<and> (r = [] \<or> r = [10]))"
proof -
  have "re_match heading_pattern s \<longleftrightarrow>
      (\<exists>m. (m \<in> set (rests (Seq (Class upper_AZ) (Plus (\<lambda>c. upper_AZ c \<or> lower_az c \<or> isspace c))) s) \<or>
            m \<in> set (rests (Seq (Plus digit_09)
                (Seq (Class (\<lambda>c. c = 46)) (Seq (Class isspace) (Star (\<lambda>c. c \<noteq> 10))))) s)) \<and>
           (m = [] \<or> m = [10]))"
    unfolding re_match_iff heading_pattern_def in_rests_Seq [of _ "Alt _ _"] in_rests_Alt
      in_rests_Dollar by blast
  then show ?thesis
    unfolding in_rests_capitalised in_rests_numbered by blast
qed

lemma heading_shape:
  assumes "10 \<notin> set s"
  shows "re_match heading_pattern s \<longleftrightarrow>
     (\<exists>c rest. s = c # rest \<and> upper_AZ c \<and> rest \<noteq> [] \<and>
        (\<forall>x\<in>set rest. upper_AZ x \<or> lower_az x \<or> isspace x)) \<or>
     (\<exists>ds w rest. s = ds @ 46 # w # rest \<and> ds \<noteq> [] \<and> (\<forall>x\<in>set ds. digit_09 x) \<and> isspace w)"
    (is "?L \<longleftrightarrow> ?A \<or> ?B")
proof
  assume ?L
  then consider
    (a) c pre r where "s = c # pre @ r" "upper_AZ c" "pre \<noteq> []"
        "\<forall>x\<in>set pre. upper_AZ x \<or> lower_az x \<or> isspace x" "r = [] \<or> r = [10]"
  | (b) ds w mid r where "s = ds @ 46 # w # mid @ r" "ds \<noteq> []" "\<forall>x\<in>set ds. digit_09 x"
        "isspace w"
    unfolding heading_rests by blast
  then show "?A \<or> ?B"
  proof cases
    case a
    then have "r = []" using assms by auto
    then have ?A using a by auto
    then show ?thesis ..
  next
    case b
    then have ?B by blast
    then show ?thesis ..
  qed
next
  assume "?A \<or> ?B"
  then show ?L
  proof
    assume ?A
    then obtain c rest where "s = c # rest @ []" "upper_AZ c" "rest \<noteq> []"
        "\<forall>x\<in>set rest. upper_AZ x \<or> lower_az x \<or> isspace x"
      by auto
    then show ?L unfolding heading_rests by blast
  next
    assume ?B
    then obtain ds w rest where b: "s = ds @ 46 # w # rest @ []" "ds \<noteq> []"
        "\<forall>x\<in>set ds. digit_09 x" "isspace w"
      by auto
    then have "\<forall>x\<in>set rest. x \<noteq> 10" using assms by auto
    with b show ?L unfolding heading_rests by blast
  qed
qed

section \<open>Properties of strip, join and splitlines\<close>

lemma strip_clean: "strip s \<noteq> [] \<Longrightarrow> clean (strip s)"
proof -
  assume ne: "strip s \<noteq> []"
  define t where "t = dropWhile isspace s"
  define u where "u = dropWhile isspace (rev t)"
  have su: "strip s = rev u" by (simp add: strip_def t_def u_def)
  with ne have une: "u \<noteq> []" by simp
  then have "\<not> isspace (hd u)" unfolding u_def by (rule hd_dropWhile)
  then have l: "\<not> isspace (last (strip s))" using su une by (simp add: last_rev)
  have "rev t \<noteq> []" using une u_def by auto
  then have tne: "t \<noteq> []" by simp
  then have ht: "\<not> isspace (hd t)" unfolding t_def by (rule hd_dropWhile)
  have "last u = last (rev t)"
    using une unfolding u_def
    by (metis append_Nil2 last_appendR takeWhile_dropWhile_id)
  then have "hd (strip s) = hd t" using su une tne by (simp add: hd_rev last_rev)
  with ht l ne show ?thesis by (simp add: clean_def)
qed

lemma strip_of_clean: "clean s \<Longrightarrow> strip s = s"
proof -
  assume c: "clean s"
  then have "dropWhile isspace s = s"
    by (cases s) (auto simp: clean_def)
  moreover have r: "rev s = last s # rev (butlast s)"
    using c by (metis append_butlast_last_id clean_def rev.simps(2) rev_rev_ident rev_swap)
  have "dropWhile isspace (last s # rev (butlast s)) = last s # rev (butlast s)"
    using c by (simp add: clean_def)
  then have "dropWhile isspace (rev s) = rev s"
    by (simp only: r)
  ultimately show ?thesis by (simp add: strip_def)
qed

lemma join_append:
  "xs \<noteq> [] \<Longrightarrow> ys \<noteq> [] \<Longrightarrow> join sep (xs @ ys) = join sep xs @ sep @ join sep ys"
proof (induction sep xs rule: join.induct)
  case (2 sep x)
  then show ?case by (cases ys) auto
qed auto

lemma join_snoc: "xs \<noteq> [] \<Longrightarrow> join sep (xs @ [y]) = join sep xs @ sep @ y"
  by (simp add: join_append)

lemma join_eq_Nil: "xs \<noteq> [] \<Longrightarrow> hd xs \<noteq> [] \<Longrightarrow> join sep xs \<noteq> []"
  by (induction sep xs rule: join.induct) auto

lemma hd_join: "xs \<noteq> [] \<Longrightarrow> hd xs \<noteq> [] \<Longrightarrow> hd (join sep xs) = hd (hd xs)"
  by (induction sep xs rule: join.induct) auto

lemma join_last_nonempty: "xs \<noteq> [] \<Longrightarrow> last xs \<noteq> [] \<Longrightarrow> join sep xs \<noteq> []"
  by (induction sep xs rule: join.induct) auto

lemma last_join: "xs \<noteq> [] \<Longrightarrow> last xs \<noteq> [] \<Longrightarrow> last (join sep xs) = last (last xs)"
proof (induction sep xs rule: join.induct)
  case (3 sep x y ys)
  then have "last (join sep (y # ys)) = last (last (y # ys))" by simp
  moreover have "join sep (y # ys) \<noteq> []"
    using 3 by (intro join_last_nonempty) auto
  ultimately show ?case by simp
qed auto

lemma clean_join: "xs \<noteq> [] \<Longrightarrow> \<forall>x\<in>set xs. clean x \<Longrightarrow> clean (join [32] xs)"
  by (simp add: clean_def join_eq_Nil hd_join last_join)

lemma strip_join_clean:
  "xs \<noteq> [] \<Longrightarrow> \<forall>x\<in>set xs. clean x \<Longrightarrow> strip (join [32] xs) = join [32] xs"
  by (rule strip_of_clean) (rule clean_join)

lemma join_merge_front: "join sep ([x @ sep @ y] @ R) = join sep ([x, y] @ R)"
  by (cases R) auto

lemma join_merge: "join sep (B @ [x @ sep @ y] @ R) = join sep (B @ [x, y] @ R)"
proof (cases "B = []")
  case True
  then show ?thesis using join_merge_front [of sep x y R] by simp
next
  case False
  then show ?thesis
    using join_append [of B "[x @ sep @ y] @ R" sep] join_append [of B "[x, y] @ R" sep]
      join_merge_front [of sep x y R]
    by simp
qed

lemma splitlines_from_no_linebreak:
  "\<forall>c\<in>set acc. \<not> is_linebreak c \<Longrightarrow> l \<in> set (splitlines_from acc s) \<Longrightarrow>
   c \<in> set l \<Longrightarrow> \<not> is_linebreak c"
proof (induction acc s rule: splitlines_from.induct)
  case (1 acc)
  then show ?case by (auto split: if_splits)
next
  case (2 acc c' cs)
  show ?case
  proof (cases "is_linebreak c'")
    case False
    then show ?thesis using 2 by auto
  next
    case True
    show ?thesis
    proof (cases cs)
      case Nil
      then show ?thesis using 2 True by auto
    next
      case (Cons d ds)
      then show ?thesis using 2 True by (cases "c' = 13 \<and> d = 10") auto
    qed
  qed
qed

lemma splitlines_no_linebreak:
  "l \<in> set (splitlines text) \<Longrightarrow> c \<in> set l \<Longrightarrow> \<not> is_linebreak c"
  unfolding splitlines_def using splitlines_from_no_linebreak [of "[]"] by auto

lemma strip_subset: "set (strip s) \<subseteq> set s"
proof
  fix x assume "x \<in> set (strip s)"
  then have "x \<in> set (dropWhile isspace (rev (dropWhile isspace s)))"
    by (simp add: strip_def)
  then have "x \<in> set (rev (dropWhile isspace s))" by (rule set_dropWhileD)
  then have "x \<in> set (dropWhile isspace s)" by simp
  then show "x \<in> set s" by (rule set_dropWhileD)
qed

lemma stripped_line_no_newline:
  assumes "l \<in> set (splitlines text)"
  shows "10 \<notin> set (strip l)"
proof
  assume "10 \<in> set (strip l)"
  then have "10 \<in> set l" using strip_subset by blast
  then have "\<not> is_linebreak 10" using assms by (rule splitlines_no_linebreak [rotated])
  then show False by (simp add: is_linebreak_def)
qed

section \<open>Properties of the segmenter\<close>

lemmas seg_eval = py_def break_into_blocks_def splitlines_def block_step_def strip_def isspace_def
  is_linebreak_def re_match_def heading_pattern_def upper_AZ_def lower_az_def digit_09_def

lemma break_into_blocks_close:
  "break_into_blocks text = close_block (foldl block_step ([], []) (splitlines text))"
  by (simp add: break_into_blocks_def close_block_def split: prod.splits)

lemma foldl_all_blank:
  "\<forall>l\<in>set ls. strip l = [] \<Longrightarrow> foldl block_step st ls = st"
  by (induction ls arbitrary: st) (auto simp: block_step_def split: prod.splits)

lemma foldl_no_heading:
  "\<forall>l\<in>set ls. \<not> re_match heading_pattern (strip l) \<Longrightarrow>
   foldl block_step (B, C) ls = (B, C @ nonblank ls)"
  by (induction ls arbitrary: C) (auto simp: block_step_def nonblank_def)

lemma nonblank_clean: "x \<in> set (nonblank ls) \<Longrightarrow> clean x"
  by (auto simp: nonblank_def strip_clean)

lemma block_step_clean:
  "\<forall>x\<in>set C. clean x \<Longrightarrow> \<forall>x\<in>set (snd (block_step (B, C) l)). clean x"
  by (auto simp: block_step_def Let_def strip_clean)

lemma block_step_join:
  assumes "\<forall>x\<in>set C. clean x"
  shows "join [32] (close_block (block_step (B, C) l) @ R) =
         join [32] (close_block (B, C) @ nonblank [l] @ R)"
proof (cases "strip l = []")
  case True
  then show ?thesis by (simp add: block_step_def nonblank_def)
next
  case ne: False
  then have cl: "clean (strip l)" by (rule strip_clean)
  then have s1: "strip (strip l) = strip l" by (rule strip_of_clean)
  show ?thesis
  proof (cases "re_match heading_pattern (strip l)")
    case True
    then show ?thesis
      using ne s1 by (simp add: block_step_def nonblank_def close_block_def)
  next
    case False
    show ?thesis
    proof (cases "C = []")
      case True
      then show ?thesis
        using ne s1 False by (simp add: block_step_def nonblank_def close_block_def)
    next
      case Cne: False
      have a: "strip (join [32] (C @ [strip l])) = join [32] C @ [32] @ strip l"
        using assms cl Cne strip_join_clean [of "C @ [strip l]"] by (simp add: join_snoc)
      have b: "strip (join [32] C) = join [32] C"
        using assms Cne by (simp add: strip_join_clean)
      show ?thesis
        using ne False Cne a b join_merge [of "[32]" B "join [32] C" "strip l" R]
        by (simp add: block_step_def nonblank_def close_block_def)
    qed
  qed
qed

lemma foldl_block_step_join:
  "\<forall>x\<in>set C. clean x \<Longrightarrow>
   join [32] (close_block (foldl block_step (B, C) ls) @ R) =
   join [32] (close_block (B, C) @ nonblank ls @ R)"
proof (induction ls arbitrary: B C R)
  case Nil
  then show ?case by (simp add: nonblank_def)
next
  case (Cons l ls)
  obtain B' C' where st: "block_step (B, C) l = (B', C')" by (cases "block_step (B, C) l")
  then have "\<forall>x\<in>set C'. clean x"
    using block_step_clean [OF Cons.prems, of B l] by simp
  then have "join [32] (close_block (foldl block_step (B', C') ls) @ R) =
             join [32] (close_block (B', C') @ nonblank ls @ R)"
    by (rule Cons.IH)
  also have "\<dots> = join [32] (close_block (B, C) @ nonblank [l] @ nonblank ls @ R)"
    using block_step_join [OF Cons.prems, of B l "nonblank ls @ R"] st by simp
  also have "nonblank [l] @ nonblank ls @ R = nonblank (l # ls) @ R"
    by (simp add: nonblank_def)
  finally show ?case using st by simp
qed

lemma conserve: "join [32] (break_into_blocks text) = join [32] (nonblank (splitlines text))"
  using foldl_block_step_join [of "[]" "[]" "splitlines text" "[]"]
  by (simp add: break_into_blocks_close close_block_def)

lemma block_step_starts:
  "strip l \<noteq> [] \<Longrightarrow>
   snd (block_step (B, C) l) = [strip l] \<longleftrightarrow> C = [] \<or> re_match heading_pattern (strip l)"
  by (auto simp: block_step_def Let_def)

lemma block_step_current_empty:
  "snd (block_step (B, C) l) = [] \<longleftrightarrow> C = [] \<and> strip l = []"
  by (auto simp: block_step_def Let_def split: if_splits)

lemma foldl_current_empty:
  "snd (foldl block_step (B, C) ls) = [] \<longleftrightarrow> C = [] \<and> (\<forall>l\<in>set ls. strip l = [])"
proof (induction ls arbitrary: B C)
  case Nil
  then show ?case by simp
next
  case (Cons l ls)
  obtain B' C' where st: "block_step (B, C) l = (B', C')" by (cases "block_step (B, C) l")
  then have "C' = [] \<longleftrightarrow> C = [] \<and> strip l = []"
    using block_step_current_empty [of B C l] by simp
  then show ?case using Cons.IH [of B' C'] st by auto
qed

text \<open>
  C7 (empty-output case). When the input is empty or has only blank lines (every line
  is empty once stripped of whitespace), \<open>break_into_blocks\<close> returns no block.
\<close>

theorem blank_input_no_blocks:
  "\<forall>l\<in>set (splitlines text). strip l = [] \<Longrightarrow> break_into_blocks text = []"
  by (simp add: break_into_blocks_close foldl_all_blank close_block_def)

theorem blank_input_no_blocks_witness:
  "splitlines (py '' \<newline>\<newline>  '') = [py '' '', [], py ''  ''] \<and>
   strip (py '' '') = [] \<and> strip [] = [] \<and> strip (py ''  '') = [] \<and>
   break_into_blocks (py '' \<newline>\<newline>  '') = []"
proof -
  have l: "splitlines (py '' \<newline>\<newline>  '') = [py '' '', [], py ''  '']"
    by (simp add: seg_eval)
  have s: "strip (py '' '') = [] \<and> strip [] = [] \<and> strip (py ''  '') = []"
    by (simp add: seg_eval)
  have "\<forall>l\<in>set (splitlines (py '' \<newline>\<newline>  '')). strip l = []"
    using s by (simp add: l)
  then have "break_into_blocks (py '' \<newline>\<newline>  '') = []"
    by (rule blank_input_no_blocks)
  with l s show ?thesis by blast
qed

text \<open>
  C10 (segmentation conserves text). Joining the blocks that \<open>break_into_blocks\<close> returns
  with single spaces gives the stripped, non-blank lines of the input joined with single
  spaces: no line is dropped, duplicated or reordered.
\<close>

theorem segmentation_conserves_text:
  "join [32] (break_into_blocks text) =
   join [32] (filter (\<lambda>s. s \<noteq> []) (map strip (splitlines text)))"
  using conserve [of "text"] by (simp add: nonblank_def)

text \<open>
  C5 (single-block case) reads: without heading lines, the one block is the non-blank
  lines of the input joined with single spaces, then trimmed. The source strips every
  line before it joins them, so whitespace at the end of a line (or at its start) does
  not reach the block: the input \<^verbatim>\<open>"foo \nbar"\<close> has the lines \<^verbatim>\<open>"foo "\<close> and \<^verbatim>\<open>"bar"\<close>, neither
  is a heading, joined and trimmed they are \<^verbatim>\<open>"foo  bar"\<close> (two spaces), and the block is
  \<^verbatim>\<open>"foo bar"\<close>.
\<close>

theorem single_block_counterexample:
  "splitlines (py ''foo \<newline>bar'') = [py ''foo '', py ''bar''] \<and>
   \<not> re_match heading_pattern (strip (py ''foo '')) \<and>
   \<not> re_match heading_pattern (strip (py ''bar'')) \<and>
   strip (join [32] [py ''foo '', py ''bar'']) = py ''foo  bar'' \<and>
   break_into_blocks (py ''foo \<newline>bar'') = [py ''foo bar'']"
  by (simp add: seg_eval)

text \<open>
  C5 (single-block case), as the source has it. When the input has a non-blank line and
  no stripped line matches the heading pattern, \<open>break_into_blocks\<close> returns exactly one
  block: the non-blank lines, each stripped, joined with single spaces. Trimming that
  text changes nothing.
\<close>

theorem single_block_of_stripped_lines:
  assumes "\<exists>l\<in>set (splitlines text). strip l \<noteq> []"
    and "\<forall>l\<in>set (splitlines text). \<not> re_match heading_pattern (strip l)"
  shows "break_into_blocks text =
           [join [32] (filter (\<lambda>s. s \<noteq> []) (map strip (splitlines text)))] \<and>
         strip (join [32] (filter (\<lambda>s. s \<noteq> []) (map strip (splitlines text)))) =
           join [32] (filter (\<lambda>s. s \<noteq> []) (map strip (splitlines text)))"
proof -
  let ?ls = "splitlines text"
  have ne: "nonblank ?ls \<noteq> []"
    using assms(1) by (auto simp: nonblank_def filter_empty_conv)
  have st: "strip (join [32] (nonblank ?ls)) = join [32] (nonblank ?ls)"
    using ne by (intro strip_join_clean) (auto dest: nonblank_clean)
  have "foldl block_step ([], []) ?ls = ([], nonblank ?ls)"
    using foldl_no_heading [OF assms(2), of "[]" "[]"] by simp
  then have "break_into_blocks text = [strip (join [32] (nonblank ?ls))]"
    using ne by (simp add: break_into_blocks_close close_block_def)
  with st show ?thesis by (simp add: nonblank_def)
qed

theorem single_block_of_stripped_lines_witness:
  "splitlines (py ''foo \<newline>bar'') = [py ''foo '', py ''bar''] \<and>
   strip (py ''foo '') = py ''foo'' \<and> strip (py ''bar'') = py ''bar'' \<and>
   \<not> re_match heading_pattern (py ''foo'') \<and> \<not> re_match heading_pattern (py ''bar'') \<and>
   break_into_blocks (py ''foo \<newline>bar'') = [join [32] [py ''foo'', py ''bar'']]"
proof -
  let ?t = "py ''foo \<newline>bar''"
  have l: "splitlines ?t = [py ''foo '', py ''bar'']" by (simp add: seg_eval)
  have s: "strip (py ''foo '') = py ''foo'' \<and> strip (py ''bar'') = py ''bar''"
    by (simp add: seg_eval)
  have h: "\<not> re_match heading_pattern (py ''foo'') \<and> \<not> re_match heading_pattern (py ''bar'')"
    by (simp add: seg_eval)
  have ne: "py ''foo'' \<noteq> [] \<and> py ''bar'' \<noteq> []" by (simp add: py_def)
  have 1: "\<exists>l\<in>set (splitlines ?t). strip l \<noteq> []" using s ne by (simp add: l)
  have 2: "\<forall>l\<in>set (splitlines ?t). \<not> re_match heading_pattern (strip l)"
    using s h by (simp add: l)
  have "break_into_blocks ?t = [join [32] (filter (\<lambda>s. s \<noteq> []) (map strip (splitlines ?t)))]"
    using single_block_of_stripped_lines [OF 1 2] by blast
  then have "break_into_blocks ?t = [join [32] [py ''foo'', py ''bar'']]"
    using s ne by (simp add: l)
  with l s h show ?thesis by blast
qed

text \<open>
  C2 (heading predicate) reads: a line starts a new block if and only if it is (a) a line
  of capitalized words and spaces only, or (b) a line that begins with a numeric marker,
  a period and a space. On the input \<^verbatim>\<open>"intro\nHello world"\<close> the source returns the two
  blocks \<^verbatim>\<open>"intro"\<close> and \<^verbatim>\<open>"Hello world"\<close>: the first non-blank line starts a block whatever
  it looks like, and \<^verbatim>\<open>"Hello world"\<close> starts one although \<^verbatim>\<open>world\<close> is not capitalized.
  Neither line is a heading in the words of the specification.
\<close>

theorem heading_predicate_counterexample:
  "break_into_blocks (py ''intro\<newline>Hello world'') = [py ''intro'', py ''Hello world''] \<and>
   \<not> spec_heading (py ''intro'') \<and> \<not> spec_heading (py ''Hello world'')"
  by (simp add: seg_eval spec_heading_def spec_capitalized_line_def spec_numbered_line_def
      capitalized_word_def)

text \<open>
  C2 (heading predicate), as the source has it. A non-blank line starts a new block (the
  current block consists of that line alone once the loop has processed it) if and only
  if it is the first non-blank line of the input, or, once stripped, (a) it is an ASCII
  capital letter followed by one or more characters that are ASCII letters or whitespace,
  or (b) it begins with one or more ASCII digits, a period and a whitespace character.
\<close>

theorem line_starts_block_iff:
  assumes "i < length (splitlines text)" and "strip (splitlines text ! i) \<noteq> []"
  shows "snd (foldl block_step ([], []) (take (Suc i) (splitlines text))) =
           [strip (splitlines text ! i)] \<longleftrightarrow>
         (\<forall>j<i. strip (splitlines text ! j) = []) \<or>
         (\<exists>c rest. strip (splitlines text ! i) = c # rest \<and> upper_AZ c \<and> rest \<noteq> [] \<and>
            (\<forall>x\<in>set rest. upper_AZ x \<or> lower_az x \<or> isspace x)) \<or>
         (\<exists>ds w rest. strip (splitlines text ! i) = ds @ 46 # w # rest \<and> ds \<noteq> [] \<and>
            (\<forall>x\<in>set ds. digit_09 x) \<and> isspace w)"
proof -
  let ?ls = "splitlines text"
  let ?l = "?ls ! i"
  obtain B C where st: "foldl block_step ([], []) (take i ?ls) = (B, C)"
    by (cases "foldl block_step ([], []) (take i ?ls)")
  have "take (Suc i) ?ls = take i ?ls @ [?l]"
    using assms(1) by (rule take_Suc_conv_app_nth)
  then have "foldl block_step ([], []) (take (Suc i) ?ls) = block_step (B, C) ?l"
    using st by simp
  then have 1: "snd (foldl block_step ([], []) (take (Suc i) ?ls)) = [strip ?l] \<longleftrightarrow>
             C = [] \<or> re_match heading_pattern (strip ?l)"
    using block_step_starts [OF assms(2), of B C] by simp
  have "C = [] \<longleftrightarrow> (\<forall>l\<in>set (take i ?ls). strip l = [])"
    using foldl_current_empty [of "[]" "[]" "take i ?ls"] st by simp
  also have "\<dots> \<longleftrightarrow> (\<forall>j<i. strip (?ls ! j) = [])"
    using assms(1) by (simp add: all_set_conv_all_nth)
  finally have 2: "C = [] \<longleftrightarrow> (\<forall>j<i. strip (?ls ! j) = [])" .
  have "?l \<in> set ?ls" using assms(1) by simp
  then have "10 \<notin> set (strip ?l)" by (rule stripped_line_no_newline)
  then have 3: "re_match heading_pattern (strip ?l) \<longleftrightarrow>
     (\<exists>c rest. strip ?l = c # rest \<and> upper_AZ c \<and> rest \<noteq> [] \<and>
        (\<forall>x\<in>set rest. upper_AZ x \<or> lower_az x \<or> isspace x)) \<or>
     (\<exists>ds w rest. strip ?l = ds @ 46 # w # rest \<and> ds \<noteq> [] \<and>
        (\<forall>x\<in>set ds. digit_09 x) \<and> isspace w)"
    by (rule heading_shape)
  show ?thesis
    unfolding 1 2 3 ..
qed

theorem line_starts_block_iff_witness:
  "splitlines (py ''intro\<newline>Hello world'') = [py ''intro'', py ''Hello world''] \<and>
   strip (py ''Hello world'') = 72 # py ''ello world'' \<and>
   snd (foldl block_step ([], []) (take 2 (splitlines (py ''intro\<newline>Hello world'')))) =
     [72 # py ''ello world'']"
proof -
  let ?t = "py ''intro\<newline>Hello world''"
  have l: "splitlines ?t = [py ''intro'', py ''Hello world'']" by (simp add: seg_eval)
  have s: "strip (py ''Hello world'') = 72 # py ''ello world''" by (simp add: seg_eval)
  have s1: "strip (splitlines ?t ! 1) = 72 # py ''ello world''" using s by (simp add: l)
  have i: "1 < length (splitlines ?t)" by (simp add: l)
  have n: "strip (splitlines ?t ! 1) \<noteq> []" by (simp only: s1) simp
  have "upper_AZ 72 \<and> py ''ello world'' \<noteq> [] \<and>
        (\<forall>x\<in>set (py ''ello world''). upper_AZ x \<or> lower_az x \<or> isspace x)"
    by (simp add: py_def upper_AZ_def lower_az_def isspace_def)
  then have "\<exists>c rest. strip (splitlines ?t ! 1) = c # rest \<and> upper_AZ c \<and> rest \<noteq> [] \<and>
            (\<forall>x\<in>set rest. upper_AZ x \<or> lower_az x \<or> isspace x)"
    unfolding s1 by blast
  then have "snd (foldl block_step ([], []) (take (Suc 1) (splitlines ?t))) =
             [strip (splitlines ?t ! 1)]"
    using line_starts_block_iff [OF i n] by blast
  then have "snd (foldl block_step ([], []) (take 2 (splitlines ?t))) = [72 # py ''ello world'']"
    unfolding s1 Suc_1 .
  with l s show ?thesis by blast
qed

section \<open>Properties of the aggregator\<close>

lemmas agg_eval = compile_summary_def init_summary_def merge_block_def merge_item_def
  append_match_def set_final_status_def section_4_checklist_def example_results_def
  valid_block_def valid_item_def

lemma keys_add_records: "map fst (add_records f S) = map fst S"
  by (simp add: add_records_def)

lemma add_records_none: "add_records (\<lambda>k. []) S = S"
  by (simp add: add_records_def)

lemma add_records_twice: "add_records g (add_records f S) = add_records (\<lambda>k. f k @ g k) S"
  by (simp add: add_records_def)

lemma dict_set_present:
  "distinct (map fst S) \<Longrightarrow> map_of S k = Some x \<Longrightarrow>
   dict_set S k v = map (\<lambda>p. (fst p, if fst p = k then v else snd p)) S"
proof (induction S)
  case Nil
  then show ?case by simp
next
  case (Cons p S)
  show ?case
  proof (cases "fst p = k")
    case True
    then have "k \<notin> fst ` set S" using Cons.prems by auto
    then have "map (\<lambda>p. (fst p, if fst p = k then v else snd p)) S = S"
      by (induction S) auto
    then show ?thesis using True by simp
  next
    case False
    then show ?thesis using Cons by (cases p) auto
  qed
qed

lemma dict_set_fresh: "k \<notin> fst ` set S \<Longrightarrow> dict_set S k v = S @ [(k, v)]"
  by (induction S) auto

lemma keys_dict_set: "fst ` set (dict_set S k v) = insert k (fst ` set S)"
  by (induction S) auto

lemma foldl_dict_set_fresh:
  "distinct (map fst S @ map f xs) \<Longrightarrow>
   foldl (\<lambda>summary item. dict_set summary (f item) (g item)) S xs = S @ map (\<lambda>x. (f x, g x)) xs"
proof (induction xs arbitrary: S)
  case Nil
  then show ?case by simp
next
  case (Cons x xs)
  have fresh: "f x \<notin> fst ` set S" using Cons.prems by auto
  have "distinct (map fst (S @ [(f x, g x)]) @ map f xs)" using Cons.prems by auto
  then show ?case
    using Cons.IH [of "S @ [(f x, g x)]"] fresh by (simp add: dict_set_fresh)
qed

lemma init_summary_distinct:
  "distinct (map ident checklist) \<Longrightarrow>
   init_summary checklist =
     map (\<lambda>item. (ident item, \<lparr>checklist_item_id = ident item, final_status = py ''Missing'',
                                matched_blocks = []\<rparr>)) checklist"
  unfolding init_summary_def
  using foldl_dict_set_fresh [of "[]" ident checklist] by simp

lemma keys_foldl_dict_set:
  "fst ` set (foldl (\<lambda>summary item. dict_set summary (f item) (g item)) S xs) =
   fst ` set S \<union> f ` set xs"
  by (induction xs arbitrary: S) (auto simp: keys_dict_set)

lemma keys_init_summary: "fst ` set (init_summary checklist) = ident ` set checklist"
  unfolding init_summary_def using keys_foldl_dict_set [of ident _ "[]" checklist] by simp

lemma getitem_is_dict: "getitem item k = Inr v \<Longrightarrow> \<exists>kvs. item = JObj kvs"
  by (cases item) auto

lemma merge_item_valid:
  assumes d: "distinct (map fst S)" and v: "valid_item (map fst S) item"
  shows "merge_item bid S item = Inr (add_records (\<lambda>k. entry_record k (bid, item)) S)"
proof -
  from v obtain iid st where
    g1: "getitem item (py ''Checklist Item ID'') = Inr iid" and
    g2: "getitem item (py ''Status'') = Inr st" and
    k: "st = JStr (py ''Missing'') \<or> iid \<in> JStr ` set (map fst S)"
    by (auto simp: valid_item_def split: sum.splits)
  from g1 obtain kvs where item: "item = JObj kvs" using getitem_is_dict by blast
  show ?thesis
  proof (cases "st = JStr (py ''Missing'')")
    case True
    then have "\<And>k. entry_record k (bid, item) = []"
      using g1 g2 item by (simp add: entry_record_def split: sum.splits)
    then show ?thesis
      using True g1 g2 by (simp add: merge_item_def add_records_none)
  next
    case False
    with k obtain i where iid: "iid = JStr i" and i: "i \<in> fst ` set S" by auto
    then obtain info where info: "map_of S i = Some info"
      by (metis domD dom_map_of_conv_image_fst)
    define j where "j = (case map_of kvs (py ''Justification'') of None \<Rightarrow> JStr [] | Some x \<Rightarrow> x)"
    define m where "m = \<lparr>block_id = bid, status = st, justification = j\<rparr>"
    have e: "\<And>k. entry_record k (bid, item) = (if k = i then [m] else [])"
      using g1 g2 item iid False unfolding entry_record_def m_def j_def
      by (auto simp del: getitem.simps)
    have "merge_item bid S item =
          Inr (dict_set S i (info\<lparr>matched_blocks := matched_blocks info @ [m]\<rparr>))"
      using g1 g2 False iid info item unfolding merge_item_def m_def j_def append_match_def
      by (simp del: getitem.simps)
    also have "dict_set S i (info\<lparr>matched_blocks := matched_blocks info @ [m]\<rparr>) =
               map (\<lambda>p. (fst p, if fst p = i then info\<lparr>matched_blocks := matched_blocks info @ [m]\<rparr> else snd p)) S"
      using d info by (rule dict_set_present)
    also have "\<dots> = add_records (\<lambda>k. entry_record k (bid, item)) S"
      unfolding add_records_def e
    proof (rule map_cong [OF refl])
      fix p assume "p \<in> set S"
      then have "map_of S (fst p) = Some (snd p)"
        using d by (simp add: map_of_eq_Some_iff)
      then have "fst p = i \<Longrightarrow> snd p = info"
        using info by simp
      then show "(fst p, if fst p = i then info\<lparr>matched_blocks := matched_blocks info @ [m]\<rparr> else snd p) =
                 (fst p, (snd p)\<lparr>matched_blocks := matched_blocks (snd p) @ (if fst p = i then [m] else [])\<rparr>)"
        by auto
    qed
    finally show ?thesis .
  qed
qed

lemma merge_items_valid:
  "distinct (map fst S) \<Longrightarrow> list_all (valid_item (map fst S)) items \<Longrightarrow>
   merge_items bid S items =
     Inr (add_records (\<lambda>k. concat (map (\<lambda>item. entry_record k (bid, item)) items)) S)"
proof (induction items arbitrary: S)
  case Nil
  then show ?case by (simp add: add_records_none)
next
  case (Cons item items)
  let ?S' = "add_records (\<lambda>k. entry_record k (bid, item)) S"
  have 1: "merge_item bid S item = Inr ?S'"
    using Cons.prems by (simp add: merge_item_valid)
  have "merge_items bid ?S' items =
        Inr (add_records (\<lambda>k. concat (map (\<lambda>item. entry_record k (bid, item)) items)) ?S')"
    using Cons.prems by (intro Cons.IH) (simp_all add: keys_add_records)
  then show ?case using 1 by (simp add: add_records_twice)
qed

lemma merge_block_valid:
  assumes "distinct (map fst S)" and "valid_block (map fst S) block"
  shows "merge_block S block =
         Inr (add_records (\<lambda>k. concat (map (entry_record k) (block_entries block))) S)"
proof -
  from assms(2) obtain bid ev items where
    g: "getitem block (py ''block_id'') = Inr bid"
       "getitem block (py ''Checklist Evaluation'') = Inr ev"
       "iterate ev = Inr items" and
    v: "list_all (valid_item (map fst S)) items"
    by (auto simp: valid_block_def split: sum.splits)
  have "block_entries block = map (Pair bid) items"
    using g by (simp add: block_entries_def)
  then show ?thesis
    using g merge_items_valid [OF assms(1) v, of bid]
    by (simp add: merge_block_def comp_def)
qed

lemma merge_blocks_valid:
  "distinct (map fst S) \<Longrightarrow> list_all (valid_block (map fst S)) rs \<Longrightarrow>
   merge_blocks S rs = Inr (add_records (recorded rs) S)"
proof (induction rs arbitrary: S)
  case Nil
  then show ?case by (simp add: recorded_def entries_def add_records_none)
next
  case (Cons r rs)
  let ?S' = "add_records (\<lambda>k. concat (map (entry_record k) (block_entries r))) S"
  have 1: "merge_block S r = Inr ?S'"
    using Cons.prems by (simp add: merge_block_valid)
  have "merge_blocks ?S' rs = Inr (add_records (recorded rs) ?S')"
    using Cons.prems by (intro Cons.IH) (simp_all add: keys_add_records)
  then show ?case
    using 1 by (simp add: add_records_twice recorded_def entries_def)
qed

lemma compile_summary_valid:
  assumes "distinct (map ident checklist)"
    and "list_all (valid_block (map ident checklist)) rs"
  shows "compile_summary checklist rs = Inr (map (\<lambda>item. summary_of rs (ident item)) checklist)"
proof -
  let ?S = "init_summary checklist"
  have keys: "map fst ?S = map ident checklist"
    using assms(1) by (simp add: init_summary_distinct comp_def)
  then have "merge_blocks ?S rs = Inr (add_records (recorded rs) ?S)"
    using assms by (intro merge_blocks_valid) simp_all
  then show ?thesis
    using assms(1)
    by (simp add: compile_summary_def init_summary_distinct add_records_def comp_def summary_of_def)
qed

lemma status_entry_record:
  "set (map status (entry_record k e)) = set (entry_statuses k e) - {JStr (py ''Missing'')}"
proof (cases "snd e")
  case (JObj kvs)
  then show ?thesis
    by (auto simp: entry_record_def entry_statuses_def split: option.splits)
qed (simp_all add: entry_record_def entry_statuses_def)

lemma status_recorded:
  "status ` set (recorded rs k) = set (reported_statuses rs k) - {JStr (py ''Missing'')}"
proof -
  have "status ` set (recorded rs k) = (\<Union>e\<in>set (entries rs). set (map status (entry_record k e)))"
    by (auto simp: recorded_def)
  also have "\<dots> = (\<Union>e\<in>set (entries rs). set (entry_statuses k e) - {JStr (py ''Missing'')})"
    by (simp only: status_entry_record)
  also have "\<dots> = set (reported_statuses rs k) - {JStr (py ''Missing'')}"
    by (auto simp: reported_statuses_def)
  finally show ?thesis .
qed

lemma labels_distinct:
  "py ''Explicitly Mentioned'' \<noteq> py ''Missing''"
  "py ''Partially Mentioned'' \<noteq> py ''Missing''"
  "py ''Explicitly Mentioned'' \<noteq> py ''Partially Mentioned''"
  by (simp_all add: py_def)

lemma summary_of_simps:
  "checklist_item_id (summary_of rs k) = k"
  "matched_blocks (summary_of rs k) = recorded rs k"
  "final_status (summary_of rs k) =
     (if JStr (py ''Explicitly Mentioned'') \<in> status ` set (recorded rs k)
      then py ''Explicitly Mentioned''
      else if JStr (py ''Partially Mentioned'') \<in> status ` set (recorded rs k)
      then py ''Partially Mentioned'' else py ''Missing'')"
  by (simp_all add: summary_of_def set_final_status_def)

lemma entry_record_origin:
  assumes "m \<in> set (entry_record k e)"
  shows "status m \<noteq> JStr (py ''Missing'') \<and> block_id m = fst e \<and>
     (\<exists>kvs. snd e = JObj kvs \<and>
        map_of kvs (py ''Checklist Item ID'') = Some (JStr k) \<and>
        map_of kvs (py ''Status'') = Some (status m) \<and>
        justification m =
          (case map_of kvs (py ''Justification'') of None \<Rightarrow> JStr [] | Some j \<Rightarrow> j))"
proof (cases "snd e")
  case (JObj kvs)
  then show ?thesis
    using assms by (auto simp: entry_record_def split: option.splits if_splits)
qed (use assms in \<open>simp_all add: entry_record_def\<close>)

lemma example_valid:
  "distinct (map ident section_4_checklist)"
  "list_all (valid_block (map ident section_4_checklist)) example_results"
  by (simp_all add: agg_eval py_def)

lemma example_summary:
  "compile_summary section_4_checklist example_results =
     Inr [\<lparr>checklist_item_id = py ''4.1'', final_status = py ''Explicitly Mentioned'',
           matched_blocks =
             [\<lparr>block_id = JStr (py ''BLOCK1''), status = JStr (py ''Partially Mentioned''),
               justification = JStr (py ''mentions the Act'')\<rparr>,
              \<lparr>block_id = JStr (py ''BLOCK2''), status = JStr (py ''Explicitly Mentioned''),
               justification = JStr []\<rparr>]\<rparr>,
          \<lparr>checklist_item_id = py ''4.2'', final_status = py ''Missing'', matched_blocks = []\<rparr>,
          \<lparr>checklist_item_id = py ''4.3'', final_status = py ''Missing'', matched_blocks = []\<rparr>,
          \<lparr>checklist_item_id = py ''4.4'', final_status = py ''Partially Mentioned'',
           matched_blocks =
             [\<lparr>block_id = JStr (py ''BLOCK2''), status = JStr (py ''Partially Mentioned''),
               justification = JStr (py ''asks for consent'')\<rparr>]\<rparr>]"
  by (simp add: agg_eval py_def)

subsection \<open>What the aggregator accepts\<close>

text \<open>
  The loops keep the keys of \<^verbatim>\<open>summary\<close>; \<open>compile_summary\<close> returns on exactly the block
  results of the expected structure, and raises on every other input.
\<close>

lemma merge_items_append:
  "merge_items bid S (xs @ ys) =
     (case merge_items bid S xs of Inl e \<Rightarrow> Inl e | Inr S' \<Rightarrow> merge_items bid S' ys)"
  by (induction xs arbitrary: S) (auto split: sum.splits)

lemma merge_blocks_append:
  "merge_blocks S (xs @ ys) =
     (case merge_blocks S xs of Inl e \<Rightarrow> Inl e | Inr S' \<Rightarrow> merge_blocks S' ys)"
  by (induction xs arbitrary: S) (auto split: sum.splits)

lemma keys_append_match:
  assumes "append_match S iid m = Inr S'"
  shows "fst ` set S' = fst ` set S"
proof (cases iid)
  case (JStr k)
  with assms obtain info where
    info: "map_of S k = Some info" and
    S': "S' = dict_set S k (info\<lparr>matched_blocks := matched_blocks info @ [m]\<rparr>)"
    by (auto simp: append_match_def split: option.splits)
  from info have "k \<in> fst ` set S"
    by (metis domI dom_map_of_conv_image_fst)
  then show ?thesis unfolding S' keys_dict_set by blast
qed (use assms in \<open>simp_all add: append_match_def\<close>)

lemma keys_merge_item:
  assumes "merge_item bid S item = Inr S'"
  shows "fst ` set S' = fst ` set S"
proof (cases "getitem item (py ''Checklist Item ID'')")
  case Inl
  then show ?thesis using assms by (simp add: merge_item_def)
next
  case iid: (Inr iid)
  show ?thesis
  proof (cases "getitem item (py ''Status'')")
    case Inl
    then show ?thesis using assms iid by (simp add: merge_item_def)
  next
    case st: (Inr st)
    show ?thesis
    proof (cases "st = JStr (py ''Missing'')")
      case True
      then show ?thesis using assms iid st by (simp add: merge_item_def)
    next
      case False
      show ?thesis
      proof (cases "dict_get item (py ''Justification'') (JStr [])")
        case Inl
        then show ?thesis using assms iid st False by (simp add: merge_item_def)
      next
        case (Inr j)
        then have "append_match S iid \<lparr>block_id = bid, status = st, justification = j\<rparr> = Inr S'"
          using assms iid st False by (simp add: merge_item_def)
        then show ?thesis by (rule keys_append_match)
      qed
    qed
  qed
qed

lemma keys_merge_items: "merge_items bid S items = Inr S' \<Longrightarrow> fst ` set S' = fst ` set S"
proof (induction items arbitrary: S)
  case Nil
  then show ?case by simp
next
  case (Cons item items)
  then obtain S1 where 1: "merge_item bid S item = Inr S1" "merge_items bid S1 items = Inr S'"
    by (auto split: sum.splits)
  then show ?case using Cons.IH [of S1] keys_merge_item [of bid S item S1] by simp
qed

lemma keys_merge_block:
  assumes "merge_block S block = Inr S'"
  shows "fst ` set S' = fst ` set S"
proof -
  from assms obtain bid items where "merge_items bid S items = Inr S'"
    unfolding merge_block_def by (auto split: sum.splits)
  then show ?thesis by (rule keys_merge_items)
qed

lemma keys_merge_blocks: "merge_blocks S blocks = Inr S' \<Longrightarrow> fst ` set S' = fst ` set S"
proof (induction blocks arbitrary: S)
  case Nil
  then show ?case by simp
next
  case (Cons block blocks)
  then obtain S1 where 1: "merge_block S block = Inr S1" "merge_blocks S1 blocks = Inr S'"
    by (auto split: sum.splits)
  then show ?case using Cons.IH [of S1] keys_merge_block [of S block S1] by simp
qed

lemma merge_item_missing:
  "getitem item (py ''Checklist Item ID'') = Inr iid \<Longrightarrow>
   getitem item (py ''Status'') = Inr (JStr (py ''Missing'')) \<Longrightarrow>
   merge_item bid S item = Inr S"
  by (simp add: merge_item_def)

lemma merge_item_unknown:
  assumes "getitem item (py ''Checklist Item ID'') = Inr iid"
    and "getitem item (py ''Status'') = Inr st"
    and "st \<noteq> JStr (py ''Missing'')"
    and "iid \<notin> JStr ` fst ` set S"
  shows "isl (merge_item bid S item)"
proof -
  from assms(1) obtain kvs where "item = JObj kvs" using getitem_is_dict by blast
  then obtain j where j: "dict_get item (py ''Justification'') (JStr []) = Inr j" by simp
  have "isl (append_match S iid m)" for m
  proof (cases iid)
    case (JStr k)
    then have "k \<notin> fst ` set S" using assms(4) by auto
    then have "map_of S k = None" by (simp add: map_of_eq_None_iff)
    then show ?thesis using JStr by (simp add: append_match_def)
  qed (simp_all add: append_match_def)
  then show ?thesis
    using assms(1-3) j by (simp add: merge_item_def)
qed

lemma keys_list_dict_set:
  "map fst (dict_set S k v) = (if k \<in> fst ` set S then map fst S else map fst S @ [k])"
  by (induction S) auto

lemma distinct_dict_set: "distinct (map fst S) \<Longrightarrow> distinct (map fst (dict_set S k v))"
  by (simp add: keys_list_dict_set)

lemma distinct_foldl_dict_set:
  "distinct (map fst S) \<Longrightarrow>
   distinct (map fst (foldl (\<lambda>summary item. dict_set summary (f item) (g item)) S xs))"
  by (induction xs arbitrary: S) (simp_all add: distinct_dict_set)

lemma distinct_init_summary: "distinct (map fst (init_summary checklist))"
  unfolding init_summary_def by (rule distinct_foldl_dict_set) simp

lemma set_dict_set: "set (dict_set S k v) \<subseteq> insert (k, v) (set S)"
  by (induction S) auto

lemma foldl_dict_set_entries:
  "\<forall>p\<in>set S. snd p = g' (fst p) \<Longrightarrow> \<forall>x. g x = g' (f x) \<Longrightarrow>
   \<forall>p\<in>set (foldl (\<lambda>summary item. dict_set summary (f item) (g item)) S xs). snd p = g' (fst p)"
proof (induction xs arbitrary: S)
  case Nil
  then show ?case by simp
next
  case (Cons x xs)
  have "\<forall>p\<in>set (dict_set S (f x) (g x)). snd p = g' (fst p)"
  proof
    fix p assume "p \<in> set (dict_set S (f x) (g x))"
    then have "p = (f x, g x) \<or> p \<in> set S" using set_dict_set by fastforce
    then show "snd p = g' (fst p)" using Cons.prems by auto
  qed
  then show ?case using Cons.IH [of "dict_set S (f x) (g x)"] Cons.prems(2) by simp
qed

lemma init_summary_entries:
  "p \<in> set (init_summary checklist) \<Longrightarrow>
   snd p = \<lparr>checklist_item_id = fst p, final_status = py ''Missing'', matched_blocks = []\<rparr>"
  unfolding init_summary_def
  using foldl_dict_set_entries [of "[]"
      "\<lambda>k. \<lparr>checklist_item_id = k, final_status = py ''Missing'', matched_blocks = []\<rparr>"
      "\<lambda>item. \<lparr>checklist_item_id = ident item, final_status = py ''Missing'', matched_blocks = []\<rparr>"
      ident checklist]
  by simp

lemma valid_item_cong: "set ids = set ids' \<Longrightarrow> valid_item ids item = valid_item ids' item"
  by (simp add: valid_item_def split: sum.splits)

lemma valid_block_cong:
  assumes "set ids = set ids'"
  shows "valid_block ids block = valid_block ids' block"
proof -
  have h: "valid_item ids = valid_item ids'"
    using valid_item_cong [OF assms] by (intro ext)
  show ?thesis unfolding valid_block_def h by (rule refl)
qed

lemma valid_blocks_cong:
  "set ids = set ids' \<Longrightarrow> list_all (valid_block ids) rs = list_all (valid_block ids') rs"
  using valid_block_cong [of ids ids'] by (simp add: list_all_iff)

lemma compile_summary_accepts:
  assumes "list_all (valid_block (map ident checklist)) rs"
  shows "compile_summary checklist rs =
           Inr (map (\<lambda>p. summary_of rs (fst p)) (init_summary checklist))"
proof -
  let ?S = "init_summary checklist"
  have "set (map fst ?S) = set (map ident checklist)"
    using keys_init_summary [of checklist] by simp
  then have "list_all (valid_block (map fst ?S)) rs"
    using assms valid_blocks_cong by blast
  then have "merge_blocks ?S rs = Inr (add_records (recorded rs) ?S)"
    using distinct_init_summary by (intro merge_blocks_valid)
  moreover have "set_final_status ((snd p)\<lparr>matched_blocks := matched_blocks (snd p) @ recorded rs (fst p)\<rparr>) =
        summary_of rs (fst p)" if "p \<in> set ?S" for p
    using init_summary_entries [OF that] by (simp add: summary_of_def)
  ultimately show ?thesis
    by (simp add: compile_summary_def add_records_def)
qed

lemma merge_item_returns_valid:
  assumes "merge_item bid S item = Inr S'"
  shows "valid_item (map fst S) item"
proof (cases "getitem item (py ''Checklist Item ID'')")
  case Inl
  then show ?thesis using assms by (simp add: merge_item_def)
next
  case iid: (Inr iid)
  show ?thesis
  proof (cases "getitem item (py ''Status'')")
    case Inl
    then show ?thesis using assms iid by (simp add: merge_item_def)
  next
    case st: (Inr st)
    show ?thesis
    proof (cases "st = JStr (py ''Missing'')")
      case True
      then show ?thesis using iid st by (simp add: valid_item_def)
    next
      case False
      show ?thesis
      proof (cases "dict_get item (py ''Justification'') (JStr [])")
        case Inl
        then show ?thesis using assms iid st False by (simp add: merge_item_def)
      next
        case (Inr j)
        then have a: "append_match S iid \<lparr>block_id = bid, status = st, justification = j\<rparr> = Inr S'"
          using assms iid st False by (simp add: merge_item_def)
        have "iid \<in> JStr ` set (map fst S)"
        proof (cases iid)
          case (JStr k)
          with a obtain info where "map_of S k = Some info"
            by (auto simp: append_match_def split: option.splits)
          then have "k \<in> fst ` set S" by (metis domI dom_map_of_conv_image_fst)
          then show ?thesis using JStr by simp
        qed (use a in \<open>simp_all add: append_match_def\<close>)
        then show ?thesis using iid st by (simp add: valid_item_def)
      qed
    qed
  qed
qed

lemma merge_items_returns_valid:
  "merge_items bid S items = Inr S' \<Longrightarrow> list_all (valid_item (map fst S)) items"
proof (induction items arbitrary: S)
  case Nil
  then show ?case by simp
next
  case (Cons item items)
  then obtain S1 where 1: "merge_item bid S item = Inr S1" "merge_items bid S1 items = Inr S'"
    by (auto split: sum.splits)
  have "set (map fst S1) = set (map fst S)"
    using keys_merge_item [OF 1(1)] by simp
  then have "list_all (valid_item (map fst S)) items"
    using Cons.IH [OF 1(2)] valid_item_cong [of "map fst S1" "map fst S"]
    by (simp add: list_all_iff)
  then show ?case using merge_item_returns_valid [OF 1(1)] by simp
qed

lemma merge_block_returns_valid:
  assumes "merge_block S block = Inr S'"
  shows "valid_block (map fst S) block"
proof -
  from assms obtain bid ev items where
    "getitem block (py ''block_id'') = Inr bid"
    "getitem block (py ''Checklist Evaluation'') = Inr ev"
    "iterate ev = Inr items" "merge_items bid S items = Inr S'"
    unfolding merge_block_def by (auto split: sum.splits)
  then show ?thesis
    using merge_items_returns_valid [of bid S items S'] by (simp add: valid_block_def)
qed

lemma merge_blocks_returns_valid:
  "merge_blocks S rs = Inr S' \<Longrightarrow> list_all (valid_block (map fst S)) rs"
proof (induction rs arbitrary: S)
  case Nil
  then show ?case by simp
next
  case (Cons r rs)
  then obtain S1 where 1: "merge_block S r = Inr S1" "merge_blocks S1 rs = Inr S'"
    by (auto split: sum.splits)
  have "set (map fst S1) = set (map fst S)"
    using keys_merge_block [OF 1(1)] by simp
  then have "list_all (valid_block (map fst S)) rs"
    using Cons.IH [OF 1(2)] valid_blocks_cong by blast
  then show ?case using merge_block_returns_valid [OF 1(1)] by simp
qed

lemma compile_summary_rejects:
  assumes "\<not> list_all (valid_block (map ident checklist)) rs"
  shows "isl (compile_summary checklist rs)"
proof (cases "merge_blocks (init_summary checklist) rs")
  case (Inl e)
  then show ?thesis by (simp add: compile_summary_def)
next
  case (Inr S')
  then have "list_all (valid_block (map fst (init_summary checklist))) rs"
    by (rule merge_blocks_returns_valid)
  moreover have "set (map fst (init_summary checklist)) = set (map ident checklist)"
    using keys_init_summary [of checklist] by simp
  ultimately have "list_all (valid_block (map ident checklist)) rs"
    using valid_blocks_cong by blast
  with assms show ?thesis by simp
qed

subsection \<open>The summaries\<close>

text \<open>
  C1 (status precedence). On block results that it accepts, \<open>compile_summary\<close> returns
  summaries with distinct ids, one for every checklist item, and none for any other id.
  For every checklist item the final status of its summary is \<^verbatim>\<open>"Explicitly Mentioned"\<close>
  when some block reports that status for the item, else \<^verbatim>\<open>"Partially Mentioned"\<close> when
  some block reports that, else \<^verbatim>\<open>"Missing"\<close>; the same holds of the statuses recorded in
  the summary's matched blocks. Membership in a set: neither the number of reports nor
  their order matters.
\<close>

theorem status_precedence:
  assumes "list_all (valid_block (map ident checklist)) all_block_results"
  shows "\<exists>out. compile_summary checklist all_block_results = Inr out \<and>
     distinct (map checklist_item_id out) \<and>
     (\<forall>item\<in>set checklist. \<exists>s\<in>set out.
        checklist_item_id s = ident item \<and>
        final_status s =
          (if JStr (py ''Explicitly Mentioned'') \<in>
                set (reported_statuses all_block_results (ident item))
           then py ''Explicitly Mentioned''
           else if JStr (py ''Partially Mentioned'') \<in>
                set (reported_statuses all_block_results (ident item))
           then py ''Partially Mentioned''
           else py ''Missing'')) \<and>
     (\<forall>s\<in>set out.
        checklist_item_id s \<in> ident ` set checklist \<and>
        final_status s =
          (if JStr (py ''Explicitly Mentioned'') \<in>
                set (reported_statuses all_block_results (checklist_item_id s))
           then py ''Explicitly Mentioned''
           else if JStr (py ''Partially Mentioned'') \<in>
                set (reported_statuses all_block_results (checklist_item_id s))
           then py ''Partially Mentioned''
           else py ''Missing'') \<and>
        final_status s =
          (if JStr (py ''Explicitly Mentioned'') \<in> status ` set (matched_blocks s)
           then py ''Explicitly Mentioned''
           else if JStr (py ''Partially Mentioned'') \<in> status ` set (matched_blocks s)
           then py ''Partially Mentioned''
           else py ''Missing''))"
proof -
  let ?rs = all_block_results
  let ?S = "init_summary checklist"
  let ?out = "map (\<lambda>p. summary_of ?rs (fst p)) ?S"
  have e: "JStr (py ''Explicitly Mentioned'') \<in> status ` set (recorded ?rs k) \<longleftrightarrow>
           JStr (py ''Explicitly Mentioned'') \<in> set (reported_statuses ?rs k)" for k
    unfolding status_recorded using labels_distinct by simp
  have p: "JStr (py ''Partially Mentioned'') \<in> status ` set (recorded ?rs k) \<longleftrightarrow>
           JStr (py ''Partially Mentioned'') \<in> set (reported_statuses ?rs k)" for k
    unfolding status_recorded using labels_distinct by simp
  have f: "final_status (summary_of ?rs k) =
          (if JStr (py ''Explicitly Mentioned'') \<in> set (reported_statuses ?rs k)
           then py ''Explicitly Mentioned''
           else if JStr (py ''Partially Mentioned'') \<in> set (reported_statuses ?rs k)
           then py ''Partially Mentioned''
           else py ''Missing'')" for k
    by (simp only: summary_of_simps e p)
  have 1: "compile_summary checklist ?rs = Inr ?out"
    using assms by (rule compile_summary_accepts)
  have "map checklist_item_id ?out = map fst ?S"
    by (simp add: summary_of_simps comp_def)
  then have 2: "distinct (map checklist_item_id ?out)"
    using distinct_init_summary [of checklist] by (simp only:)
  have 3: "\<exists>s\<in>set ?out. checklist_item_id s = ident item \<and>
        final_status s =
          (if JStr (py ''Explicitly Mentioned'') \<in> set (reported_statuses ?rs (ident item))
           then py ''Explicitly Mentioned''
           else if JStr (py ''Partially Mentioned'') \<in> set (reported_statuses ?rs (ident item))
           then py ''Partially Mentioned''
           else py ''Missing'')"
    if "item \<in> set checklist" for item
  proof -
    from that have "ident item \<in> fst ` set ?S" by (simp add: keys_init_summary)
    then have "summary_of ?rs (ident item) \<in> set ?out" by force
    moreover have "checklist_item_id (summary_of ?rs (ident item)) = ident item"
      by (simp add: summary_of_simps)
    ultimately show ?thesis using f [of "ident item"] by blast
  qed
  have 4: "checklist_item_id s \<in> ident ` set checklist \<and>
        final_status s =
          (if JStr (py ''Explicitly Mentioned'') \<in> set (reported_statuses ?rs (checklist_item_id s))
           then py ''Explicitly Mentioned''
           else if JStr (py ''Partially Mentioned'') \<in> set (reported_statuses ?rs (checklist_item_id s))
           then py ''Partially Mentioned''
           else py ''Missing'') \<and>
        final_status s =
          (if JStr (py ''Explicitly Mentioned'') \<in> status ` set (matched_blocks s)
           then py ''Explicitly Mentioned''
           else if JStr (py ''Partially Mentioned'') \<in> status ` set (matched_blocks s)
           then py ''Partially Mentioned''
           else py ''Missing'')"
    if "s \<in> set ?out" for s
  proof -
    from that obtain q where q: "q \<in> set ?S" "s = summary_of ?rs (fst q)" by auto
    then have "fst q \<in> ident ` set checklist"
      using keys_init_summary [of checklist] by blast
    then have "checklist_item_id s \<in> ident ` set checklist"
      using q by (simp add: summary_of_simps)
    moreover have "final_status s =
          (if JStr (py ''Explicitly Mentioned'') \<in> set (reported_statuses ?rs (checklist_item_id s))
           then py ''Explicitly Mentioned''
           else if JStr (py ''Partially Mentioned'') \<in> set (reported_statuses ?rs (checklist_item_id s))
           then py ''Partially Mentioned''
           else py ''Missing'') \<and>
        final_status s =
          (if JStr (py ''Explicitly Mentioned'') \<in> status ` set (matched_blocks s)
           then py ''Explicitly Mentioned''
           else if JStr (py ''Partially Mentioned'') \<in> status ` set (matched_blocks s)
           then py ''Partially Mentioned''
           else py ''Missing'')"
      unfolding q by (simp only: summary_of_simps e p)
    ultimately show ?thesis by blast
  qed
  from 1 2 3 4 show ?thesis by (intro exI [of _ ?out]) blast
qed

theorem status_precedence_witness:
  "list_all (valid_block (map ident section_4_checklist)) example_results \<and>
   (\<exists>out. compile_summary section_4_checklist example_results = Inr out \<and>
     distinct (map checklist_item_id out) \<and>
     (\<forall>item\<in>set section_4_checklist. \<exists>s\<in>set out.
        checklist_item_id s = ident item \<and>
        final_status s =
          (if JStr (py ''Explicitly Mentioned'') \<in>
                set (reported_statuses example_results (ident item))
           then py ''Explicitly Mentioned''
           else if JStr (py ''Partially Mentioned'') \<in>
                set (reported_statuses example_results (ident item))
           then py ''Partially Mentioned''
           else py ''Missing'')) \<and>
     (\<forall>s\<in>set out.
        checklist_item_id s \<in> ident ` set section_4_checklist \<and>
        final_status s =
          (if JStr (py ''Explicitly Mentioned'') \<in>
                set (reported_statuses example_results (checklist_item_id s))
           then py ''Explicitly Mentioned''
           else if JStr (py ''Partially Mentioned'') \<in>
                set (reported_statuses example_results (checklist_item_id s))
           then py ''Partially Mentioned''
           else py ''Missing'') \<and>
        final_status s =
          (if JStr (py ''Explicitly Mentioned'') \<in> status ` set (matched_blocks s)
           then py ''Explicitly Mentioned''
           else if JStr (py ''Partially Mentioned'') \<in> status ` set (matched_blocks s)
           then py ''Partially Mentioned''
           else py ''Missing'')))"
  using example_valid(2) status_precedence [OF example_valid(2)] by blast

text \<open>
  C3 (aggregator completeness) reads: for any checklist of N items and any sequence of
  block evaluations the output holds exactly N summaries. A block result that reports a
  status other than \<^verbatim>\<open>"Missing"\<close> for an id that the checklist does not have (here \<^verbatim>\<open>"9.9"\<close>,
  after two well-formed blocks) makes \<open>compile_summary\<close> raise \<^verbatim>\<open>KeyError\<close>: there is no
  output. And a checklist of three items in which an id occurs twice gets two summaries,
  the dict being keyed by id.
\<close>

theorem aggregator_completeness_counterexample:
  "compile_summary section_4_checklist
     (example_results @ [stray_block (py ''Partially Mentioned'')]) = Inl KeyError \<and>
   compile_summary
     [\<lparr>ident = py ''4.1'', item_text = []\<rparr>, \<lparr>ident = py ''4.2'', item_text = []\<rparr>,
      \<lparr>ident = py ''4.1'', item_text = []\<rparr>] [] =
     Inr [\<lparr>checklist_item_id = py ''4.1'', final_status = py ''Missing'', matched_blocks = []\<rparr>,
          \<lparr>checklist_item_id = py ''4.2'', final_status = py ''Missing'', matched_blocks = []\<rparr>]"
  by (simp add: agg_eval stray_block_def py_def)

text \<open>
  C3 (aggregator completeness), as the source has it. For a checklist with distinct ids:
  on block results of the expected structure \<open>compile_summary\<close> returns exactly one
  summary per checklist item, in the order of the checklist, and an item for which no
  block reports a status other than \<^verbatim>\<open>"Missing"\<close> has the final status \<^verbatim>\<open>"Missing"\<close> and no
  matched block; on any other block results it raises an exception and returns no
  summary.
\<close>

theorem aggregator_completeness:
  assumes "distinct (map ident checklist)"
  shows "(list_all (valid_block (map ident checklist)) all_block_results \<longrightarrow>
      (\<exists>out. compile_summary checklist all_block_results = Inr out \<and>
         length out = length checklist \<and>
         map checklist_item_id out = map ident checklist \<and>
         (\<forall>s\<in>set out.
            set (reported_statuses all_block_results (checklist_item_id s)) \<subseteq>
              {JStr (py ''Missing'')} \<longrightarrow>
            final_status s = py ''Missing'' \<and> matched_blocks s = []))) \<and>
     (\<not> list_all (valid_block (map ident checklist)) all_block_results \<longrightarrow>
      isl (compile_summary checklist all_block_results))"
proof (intro conjI impI)
  let ?rs = all_block_results
  let ?out = "map (\<lambda>item. summary_of ?rs (ident item)) checklist"
  assume v: "list_all (valid_block (map ident checklist)) ?rs"
  have 1: "compile_summary checklist ?rs = Inr ?out"
    using assms v by (rule compile_summary_valid)
  have 2: "map checklist_item_id ?out = map ident checklist"
    by (simp add: summary_of_simps comp_def)
  have 3: "final_status s = py ''Missing'' \<and> matched_blocks s = []"
    if "s \<in> set ?out"
      and "set (reported_statuses ?rs (checklist_item_id s)) \<subseteq> {JStr (py ''Missing'')}" for s
  proof -
    from that(1) obtain k where s: "s = summary_of ?rs k" by auto
    then have "set (reported_statuses ?rs k) \<subseteq> {JStr (py ''Missing'')}"
      using that(2) by (simp add: summary_of_simps)
    then have "status ` set (recorded ?rs k) = {}"
      unfolding status_recorded by blast
    then have "recorded ?rs k = []" by simp
    then show ?thesis by (simp add: s summary_of_simps)
  qed
  from 1 2 3 show "\<exists>out. compile_summary checklist ?rs = Inr out \<and>
         length out = length checklist \<and>
         map checklist_item_id out = map ident checklist \<and>
         (\<forall>s\<in>set out.
            set (reported_statuses ?rs (checklist_item_id s)) \<subseteq> {JStr (py ''Missing'')} \<longrightarrow>
            final_status s = py ''Missing'' \<and> matched_blocks s = [])"
    by (intro exI [of _ ?out]) simp
next
  assume "\<not> list_all (valid_block (map ident checklist)) all_block_results"
  then show "isl (compile_summary checklist all_block_results)"
    by (rule compile_summary_rejects)
qed

theorem aggregator_completeness_witness:
  "distinct (map ident section_4_checklist) \<and>
   list_all (valid_block (map ident section_4_checklist)) example_results \<and>
   (\<exists>out. compile_summary section_4_checklist example_results = Inr out \<and>
     length out = length section_4_checklist \<and>
     map checklist_item_id out = map ident section_4_checklist \<and>
     (\<forall>s\<in>set out.
        set (reported_statuses example_results (checklist_item_id s)) \<subseteq> {JStr (py ''Missing'')} \<longrightarrow>
        final_status s = py ''Missing'' \<and> matched_blocks s = [])) \<and>
   \<not> list_all (valid_block (map ident section_4_checklist))
       [stray_block (py ''Partially Mentioned'')] \<and>
   isl (compile_summary section_4_checklist [stray_block (py ''Partially Mentioned'')])"
proof -
  have n: "\<not> list_all (valid_block (map ident section_4_checklist))
             [stray_block (py ''Partially Mentioned'')]"
    by (simp add: agg_eval stray_block_def py_def)
  show ?thesis
    using example_valid n
      aggregator_completeness [OF example_valid(1), of example_results]
      aggregator_completeness [OF example_valid(1),
        of "[stray_block (py ''Partially Mentioned'')]"]
    by blast
qed

text \<open>
  C6 (matched-blocks invariant). No record among the matched blocks of a summary has
  the status \<^verbatim>\<open>"Missing"\<close>; every record comes from an entry of a block result for that
  item, with the block's id and the entry's status, and its justification is the entry's
  \<^verbatim>\<open>"Justification"\<close>, or the empty string when the entry has none.
\<close>

theorem matched_blocks_invariant:
  assumes "distinct (map ident checklist)"
    and "list_all (valid_block (map ident checklist)) all_block_results"
  shows "\<exists>out. compile_summary checklist all_block_results = Inr out \<and>
     (\<forall>s\<in>set out. \<forall>m\<in>set (matched_blocks s).
        status m \<noteq> JStr (py ''Missing'') \<and>
        (\<exists>bid kvs. (bid, JObj kvs) \<in> set (entries all_block_results) \<and>
           block_id m = bid \<and>
           map_of kvs (py ''Checklist Item ID'') = Some (JStr (checklist_item_id s)) \<and>
           map_of kvs (py ''Status'') = Some (status m) \<and>
           justification m =
             (case map_of kvs (py ''Justification'') of None \<Rightarrow> JStr [] | Some j \<Rightarrow> j)))"
proof -
  let ?rs = all_block_results
  let ?out = "map (\<lambda>item. summary_of ?rs (ident item)) checklist"
  have 1: "compile_summary checklist ?rs = Inr ?out"
    using assms by (rule compile_summary_valid)
  have 2: "status m \<noteq> JStr (py ''Missing'') \<and>
        (\<exists>bid kvs. (bid, JObj kvs) \<in> set (entries ?rs) \<and>
           block_id m = bid \<and>
           map_of kvs (py ''Checklist Item ID'') = Some (JStr (checklist_item_id s)) \<and>
           map_of kvs (py ''Status'') = Some (status m) \<and>
           justification m =
             (case map_of kvs (py ''Justification'') of None \<Rightarrow> JStr [] | Some j \<Rightarrow> j))"
    if "s \<in> set ?out" and "m \<in> set (matched_blocks s)" for s m
  proof -
    from that(1) obtain k where s: "s = summary_of ?rs k" by auto
    with that(2) obtain e where e: "e \<in> set (entries ?rs)" "m \<in> set (entry_record k e)"
      by (auto simp: summary_of_simps recorded_def)
    from entry_record_origin [OF e(2)] obtain kvs where
      "status m \<noteq> JStr (py ''Missing'')" "block_id m = fst e" "snd e = JObj kvs"
      "map_of kvs (py ''Checklist Item ID'') = Some (JStr k)"
      "map_of kvs (py ''Status'') = Some (status m)"
      "justification m = (case map_of kvs (py ''Justification'') of None \<Rightarrow> JStr [] | Some j \<Rightarrow> j)"
      by blast
    moreover from this have "(block_id m, JObj kvs) \<in> set (entries ?rs)"
      using e(1) by (metis prod.collapse)
    ultimately show ?thesis by (simp add: s summary_of_simps) blast
  qed
  from 1 2 show ?thesis by (intro exI [of _ ?out]) blast
qed

theorem matched_blocks_invariant_witness:
  "distinct (map ident section_4_checklist) \<and>
   list_all (valid_block (map ident section_4_checklist)) example_results \<and>
   (\<exists>out. compile_summary section_4_checklist example_results = Inr out \<and>
     (\<forall>s\<in>set out. \<forall>m\<in>set (matched_blocks s).
        status m \<noteq> JStr (py ''Missing'') \<and>
        (\<exists>bid kvs. (bid, JObj kvs) \<in> set (entries example_results) \<and>
           block_id m = bid \<and>
           map_of kvs (py ''Checklist Item ID'') = Some (JStr (checklist_item_id s)) \<and>
           map_of kvs (py ''Status'') = Some (status m) \<and>
           justification m =
             (case map_of kvs (py ''Justification'') of None \<Rightarrow> JStr [] | Some j \<Rightarrow> j))))"
  using example_valid matched_blocks_invariant [OF example_valid] by blast

subsection \<open>Entries with an unknown item id\<close>

text \<open>
  C4 (unknown-item tolerance) reads: an entry whose item id is not in the checklist is
  ignored, the aggregator does not fail, and the output is what it would be without
  the entry. On a block whose only entry reports \<^verbatim>\<open>"Explicitly Mentioned"\<close> for the id
  \<^verbatim>\<open>"9.9"\<close>, \<open>compile_summary\<close> raises \<^verbatim>\<open>KeyError\<close>, while without the entry it returns the four
  summaries.
\<close>

theorem unknown_item_id_counterexample:
  "compile_summary section_4_checklist [stray_block (py ''Explicitly Mentioned'')] = Inl KeyError \<and>
   compile_summary section_4_checklist [empty_block] =
     Inr [\<lparr>checklist_item_id = py ''4.1'', final_status = py ''Missing'', matched_blocks = []\<rparr>,
          \<lparr>checklist_item_id = py ''4.2'', final_status = py ''Missing'', matched_blocks = []\<rparr>,
          \<lparr>checklist_item_id = py ''4.3'', final_status = py ''Missing'', matched_blocks = []\<rparr>,
          \<lparr>checklist_item_id = py ''4.4'', final_status = py ''Missing'', matched_blocks = []\<rparr>]"
  by (simp add: agg_eval stray_block_def empty_block_def py_def)

text \<open>
  C4 (unknown-item tolerance), as the source has it. An entry whose item id is not in
  the checklist is ignored when its status is \<^verbatim>\<open>"Missing"\<close> (the result is that of the same
  input without the entry); with any other status \<open>compile_summary\<close> raises an
  exception and returns no summary.
\<close>

theorem unknown_item_id:
  assumes "getitem item (py ''Checklist Item ID'') = Inr iid"
    and "iid \<notin> JStr ` set (map ident checklist)"
    and "getitem item (py ''Status'') = Inr st"
    and "getitem block (py ''block_id'') = Inr bid"
    and "getitem block (py ''Checklist Evaluation'') = Inr (JArr (xs @ item # ys))"
    and "getitem block' (py ''block_id'') = Inr bid"
    and "getitem block' (py ''Checklist Evaluation'') = Inr (JArr (xs @ ys))"
  shows "(st = JStr (py ''Missing'') \<longrightarrow>
            compile_summary checklist (pre @ block # post) =
            compile_summary checklist (pre @ block' # post)) \<and>
         (st \<noteq> JStr (py ''Missing'') \<longrightarrow>
            isl (compile_summary checklist (pre @ block # post)))"
proof (intro conjI impI)
  assume m: "st = JStr (py ''Missing'')"
  have "merge_items bid S (xs @ item # ys) = merge_items bid S (xs @ ys)" for S
    using assms(1,3) m
    by (simp add: merge_items_append merge_item_missing split: sum.splits)
  then have "merge_block S block = merge_block S block'" for S
    using assms(4-7) by (simp add: merge_block_def)
  then have "merge_blocks S (pre @ block # post) = merge_blocks S (pre @ block' # post)" for S
    by (simp add: merge_blocks_append split: sum.splits)
  then show "compile_summary checklist (pre @ block # post) =
             compile_summary checklist (pre @ block' # post)"
    by (simp add: compile_summary_def)
next
  assume n: "st \<noteq> JStr (py ''Missing'')"
  let ?S0 = "init_summary checklist"
  have unknown: "iid \<notin> JStr ` fst ` set S" if "fst ` set S = fst ` set ?S0" for S
    using assms(2) that by (simp add: keys_init_summary)
  have "isl (merge_blocks ?S0 (pre @ block # post))"
  proof (cases "merge_blocks ?S0 pre")
    case (Inl e)
    then show ?thesis by (simp add: merge_blocks_append)
  next
    case (Inr S1)
    then have k1: "fst ` set S1 = fst ` set ?S0" by (rule keys_merge_blocks)
    have "isl (merge_items bid S1 (xs @ item # ys))"
    proof (cases "merge_items bid S1 xs")
      case (Inl e)
      then show ?thesis by (simp add: merge_items_append)
    next
      case (Inr S2)
      then have "fst ` set S2 = fst ` set S1" by (rule keys_merge_items)
      then have "fst ` set S2 = fst ` set ?S0" using k1 by simp
      then have "iid \<notin> JStr ` fst ` set S2" by (rule unknown)
      then have "isl (merge_item bid S2 item)"
        by (rule merge_item_unknown [OF assms(1) assms(3) n])
      then show ?thesis
        by (cases "merge_item bid S2 item") (simp_all add: merge_items_append Inr)
    qed
    then have "isl (merge_block S1 block)"
      using assms(4,5) by (simp add: merge_block_def)
    then show ?thesis
      by (cases "merge_block S1 block") (simp_all add: merge_blocks_append Inr)
  qed
  then show "isl (compile_summary checklist (pre @ block # post))"
    by (cases "merge_blocks ?S0 (pre @ block # post)") (simp_all add: compile_summary_def)
qed

theorem unknown_item_id_witness:
  "JStr (py ''9.9'') \<notin> JStr ` set (map ident section_4_checklist) \<and>
   compile_summary section_4_checklist [stray_block (py ''Missing'')] =
     compile_summary section_4_checklist [empty_block] \<and>
   isl (compile_summary section_4_checklist [stray_block (py ''Partially Mentioned'')])"
proof -
  let ?item = "\<lambda>st. JObj [(py ''Checklist Item ID'', JStr (py ''9.9'')), (py ''Status'', JStr st)]"
  have u: "JStr (py ''9.9'') \<notin> JStr ` set (map ident section_4_checklist)"
    by (simp add: section_4_checklist_def py_def)
  have i: "getitem (?item st) (py ''Checklist Item ID'') = Inr (JStr (py ''9.9''))"
          "getitem (?item st) (py ''Status'') = Inr (JStr st)" for st
    by (simp_all add: py_def)
  have b: "getitem (stray_block st) (py ''block_id'') = Inr (JStr (py ''BLOCK1''))"
          "getitem (stray_block st) (py ''Checklist Evaluation'') = Inr (JArr ([] @ ?item st # []))"
    for st
    by (simp_all add: stray_block_def py_def)
  have e: "getitem empty_block (py ''block_id'') = Inr (JStr (py ''BLOCK1''))"
          "getitem empty_block (py ''Checklist Evaluation'') = Inr (JArr ([] @ []))"
    by (simp_all add: empty_block_def py_def)
  have p: "JStr (py ''Partially Mentioned'') \<noteq> JStr (py ''Missing'')"
    by (simp add: py_def)
  have "compile_summary section_4_checklist ([] @ stray_block (py ''Missing'') # []) =
        compile_summary section_4_checklist ([] @ empty_block # [])"
    using unknown_item_id [OF i(1) u i(2) b e, of "py ''Missing''" "[]" "[]"] by blast
  moreover have "isl (compile_summary section_4_checklist
                   ([] @ stray_block (py ''Partially Mentioned'') # []))"
    using unknown_item_id [OF i(1) u i(2) b e, of "py ''Partially Mentioned''" "[]" "[]"] p
    by blast
  ultimately show ?thesis using u by simp
qed

section \<open>Properties of the block loop\<close>

lemmas run_eval = run_compliance_check_def run_block_def show_block_def block_label_def
  decimal.simps

text \<open>
  What the \<^verbatim>\<open>try\<close> statement contains: a reply that \<^verbatim>\<open>json.loads\<close> rejects, or that is not a
  JSON object, is reported and leaves \<^verbatim>\<open>all_block_results\<close> as it was. A JSON object is
  appended whatever its contents.
\<close>

lemma run_block_rejects:
  assumes "loaded = None \<or> (\<exists>v. loaded = Some v \<and> (\<forall>kvs. v \<noteq> JObj kvs))"
  shows "\<exists>e. run_block i loaded (results, errors) = (results, errors @ [(i, e)])"
proof (cases loaded)
  case None
  then show ?thesis by (simp add: run_block_def)
next
  case (Some v)
  then have "\<forall>kvs. v \<noteq> JObj kvs" using assms by simp
  then have "setitem v (py ''block_id'') (JStr (block_label i)) = Inl TypeError"
    by (cases v) simp_all
  then show ?thesis using Some by (simp add: run_block_def)
qed

lemma run_block_keeps_dict:
  "fst (run_block i (Some (JObj kvs)) (results, errors)) =
     results @ [JObj (dict_set kvs (py ''block_id'') (JStr (block_label i)))]"
  by (simp add: run_block_def split: option.splits)

text \<open>
  A reply that \<^verbatim>\<open>json.loads\<close> rejects is contained: block 1 is reported and left out, and
  the summaries come from block 2.
\<close>

lemma unparseable_reply_contained:
  "run_compliance_check section_4_checklist [None, Some good_reply] =
     ([(1, JSONDecodeError)],
      Inr [\<lparr>checklist_item_id = py ''4.1'', final_status = py ''Explicitly Mentioned'',
            matched_blocks =
              [\<lparr>block_id = JStr (py ''BLOCK2''), status = JStr (py ''Explicitly Mentioned''),
                justification = JStr (py ''states X'')\<rparr>]\<rparr>,
           \<lparr>checklist_item_id = py ''4.2'', final_status = py ''Missing'', matched_blocks = []\<rparr>,
           \<lparr>checklist_item_id = py ''4.3'', final_status = py ''Missing'', matched_blocks = []\<rparr>,
           \<lparr>checklist_item_id = py ''4.4'', final_status = py ''Missing'', matched_blocks = []\<rparr>])"
  by (simp add: run_eval good_reply_def agg_eval py_def)

text \<open>
  C8 (per-block failure containment). A reply that is valid JSON but not of the expected
  structure, here the empty object \<^verbatim>\<open>{}\<close> for block 1, is reported as an error of block 1
  by the \<^verbatim>\<open>except\<close> branch, but it has been appended to \<^verbatim>\<open>all_block_results\<close> before:
  \<open>compile_summary\<close> then raises \<^verbatim>\<open>KeyError\<close> and no summary is produced, although the
  reply for block 2 is well formed.
\<close>

theorem malformed_reply_aborts_run:
  "run_compliance_check section_4_checklist [Some (JObj []), Some good_reply] =
     ([(1, KeyError)], Inl KeyError)"
  by (simp add: run_eval good_reply_def agg_eval py_def)

end
